theory Spec2Isabelle
  imports Main "HOL-Library.Word"
begin

unbundle bit_operations_syntax

section \<open>Machine state\<close>

text \<open>
  The emulator of \<^verbatim>\<open>src/scripts\<close>: \<^verbatim>\<open>cpu.js\<close> (class CPU), \<^verbatim>\<open>renderer.js\<close>
  (class Renderer) and \<^verbatim>\<open>keyboard.js\<close> (class Keyboard).

  JavaScript numbers that the program only ever uses as non-negative integers
  (\<^verbatim>\<open>this.i\<close>, opcodes) are \<open>nat\<close>: no operation of the program truncates
  them, and they are exact as long as they stay below \<open>2^53\<close>.  The two timers
  are \<open>int\<close>: the program subtracts from them, and only the tests of
  \<^verbatim>\<open>updateTimers\<close> keep them from going below zero.  The
  program counter can also become \<^verbatim>\<open>undefined\<close> (a pop of the empty stack) and
  then \<^verbatim>\<open>NaN\<close> (\<^verbatim>\<open>undefined + 2\<close>), so it has a type of its own.
\<close>

datatype jsnum = Num nat | Undefined | NaN

text \<open>\<^verbatim>\<open>p + k\<close> for a program counter \<open>p\<close> and a number \<open>k\<close>.\<close>

fun js_add :: "jsnum \<Rightarrow> nat \<Rightarrow> jsnum" where
  "js_add (Num n) k = Num (n + k)"
| "js_add Undefined k = NaN"
| "js_add NaN k = NaN"

text \<open>The only exception the program throws: \<^verbatim>\<open>new Error("Unknown opcode " + opcode)\<close>.\<close>

datatype error = UnknownOpcode nat

text \<open>
  The fields of CPU, followed by the state of the collaborators it mutates:
  \<open>display\<close> is \<^verbatim>\<open>renderer.display\<close>, \<open>keysPressed\<close> and \<open>onNextKeyPress\<close> are
  the keyboard's.

  \<^item> \<open>memory\<close> is \<^verbatim>\<open>new Uint8Array(4096)\<close>: only the cells below 4096 exist, every
    access goes through \<open>mem_read\<close> and \<open>mem_write\<close> below.
  \<^item> \<open>v\<close> is \<^verbatim>\<open>new Uint8Array(16)\<close>; every index the program uses is a nibble of
    the opcode, a loop counter bounded by one, or the constants 0 and 0xf.
  \<^item> \<open>display\<close> is a JavaScript array indexed by \<^verbatim>\<open>x + y * cols\<close>; a hole or an
    index past its length reads \<^verbatim>\<open>undefined\<close> (\<open>None\<close>), a write extends it.
  \<^item> \<open>keysPressed\<close> is an object keyed by the logical key, or by \<^verbatim>\<open>undefined\<close>
    (\<open>None\<close>) for a key that \<^verbatim>\<open>keymap\<close> does not map.
  \<^item> \<open>onNextKeyPress\<close> is \<^verbatim>\<open>null\<close> (\<open>None\<close>) or the closure that opcode Fx0A
    installs; the closure captures the register index \<open>x\<close>, so \<open>Some x\<close> stands
    for it.
\<close>

record chip8 =
  memory :: "nat \<Rightarrow> 8 word"
  v :: "nat \<Rightarrow> 8 word"
  i :: nat
  delayTimer :: int
  soundTimer :: int
  pc :: jsnum
  stack :: "jsnum list"
  paused :: bool
  speed :: nat
  display :: "int \<Rightarrow> nat option"
  keysPressed :: "nat option \<Rightarrow> bool option"
  onNextKeyPress :: "nat option"

subsection \<open>Typed-array access\<close>

text \<open>
  Reading a \<^verbatim>\<open>Uint8Array\<close> out of range gives \<^verbatim>\<open>undefined\<close>.  Every read of
  \<^verbatim>\<open>this.memory\<close> in the program feeds \<^verbatim>\<open><<\<close>, \<^verbatim>\<open>|\<close>, \<^verbatim>\<open>&\<close> or a store into a
  \<^verbatim>\<open>Uint8Array\<close>, and each of them converts \<^verbatim>\<open>undefined\<close> to 0.  Writing out of
  range does nothing.
\<close>

definition mem_read :: "(nat \<Rightarrow> 8 word) \<Rightarrow> nat \<Rightarrow> 8 word" where
  "mem_read m a = (if a < 4096 then m a else 0)"

definition mem_write :: "(nat \<Rightarrow> 8 word) \<Rightarrow> nat \<Rightarrow> 8 word \<Rightarrow> (nat \<Rightarrow> 8 word)" where
  "mem_write m a b = (if a < 4096 then m(a := b) else m)"

text \<open>\<^verbatim>\<open>this.memory[p]\<close> for a program counter: \<^verbatim>\<open>undefined\<close> and \<^verbatim>\<open>NaN\<close> are no index.\<close>

fun mem_read_pc :: "(nat \<Rightarrow> 8 word) \<Rightarrow> jsnum \<Rightarrow> 8 word" where
  "mem_read_pc m (Num n) = mem_read m n"
| "mem_read_pc m Undefined = 0"
| "mem_read_pc m NaN = 0"

section \<open>Renderer\<close>

definition cols :: int where
  "cols = 64"

definition rows :: int where
  "rows = 32"

text \<open>\<^verbatim>\<open>display[pixel] ^= 1\<close>: \<^verbatim>\<open>undefined ^ 1\<close> is 1.\<close>

fun xor1 :: "nat option \<Rightarrow> nat" where
  "xor1 None = 1"
| "xor1 (Some n) = n XOR 1"

text \<open>\<^verbatim>\<open>if (this.display[i])\<close> of \<^verbatim>\<open>render\<close>: the pixel is drawn.\<close>

fun lit :: "nat option \<Rightarrow> bool" where
  "lit None = False"
| "lit (Some n) = (n \<noteq> 0)"

text \<open>\<^verbatim>\<open>setPixel(x, y)\<close>: the new display and the returned boolean.\<close>

definition setPixel :: "(int \<Rightarrow> nat option) \<Rightarrow> int \<Rightarrow> int \<Rightarrow> (int \<Rightarrow> nat option) \<times> bool" where
  "setPixel d x y =
     (let x1 = (if x > cols then x - cols else if x < 0 then x + cols else x);
          y1 = (if y > rows then y - rows else if y < 0 then y + rows else y);
          pixel = x1 + y1 * cols;
          d1 = d(pixel := Some (xor1 (d pixel)))
      in (d1, \<not> lit (d1 pixel)))"

text \<open>\<^verbatim>\<open>clear()\<close>: a fresh array, every element a hole.\<close>

definition clear :: "int \<Rightarrow> nat option" where
  "clear = (\<lambda>p. None)"

section \<open>Keyboard\<close>

text \<open>\<^verbatim>\<open>keymap\<close>, from \<^verbatim>\<open>event.which\<close> to the logical key.\<close>

definition keymap :: "nat \<Rightarrow> nat option" where
  "keymap w =
     (if w = 49 then Some 0x1 else if w = 50 then Some 0x2
      else if w = 51 then Some 0x3 else if w = 52 then Some 0xc
      else if w = 81 then Some 0x4 else if w = 87 then Some 0x5
      else if w = 69 then Some 0x6 else if w = 82 then Some 0xd
      else if w = 65 then Some 0x7 else if w = 83 then Some 0x8
      else if w = 68 then Some 0x9 else if w = 70 then Some 0xe
      else if w = 90 then Some 0xa else if w = 88 then Some 0x0
      else if w = 67 then Some 0xb else if w = 86 then Some 0xf
      else None)"

text \<open>\<^verbatim>\<open>isKeyPressed(keyCode)\<close>, as the conditions of Ex9E and ExA1 read it.\<close>

definition isKeyPressed :: "chip8 \<Rightarrow> nat \<Rightarrow> bool" where
  "isKeyPressed s keyCode = (keysPressed s (Some keyCode) = Some True)"

text \<open>
  \<^verbatim>\<open>onKeyDown(event)\<close> with \<^verbatim>\<open>event.which = w\<close>.  The condition \<^verbatim>\<open>key\<close> of the
  \<^verbatim>\<open>if\<close> is JavaScript truthiness: \<^verbatim>\<open>undefined\<close> and 0 are false.  The closure
  installed by Fx0A runs \<^verbatim>\<open>this.v[x] = key; this.paused = false\<close>.
\<close>

definition onKeyDown :: "chip8 \<Rightarrow> nat \<Rightarrow> chip8" where
  "onKeyDown s w =
     (let key = keymap w;
          s1 = s\<lparr>keysPressed := (keysPressed s)(key := Some True)\<rparr>
      in case onNextKeyPress s1 of
           None \<Rightarrow> s1
         | Some x \<Rightarrow>
             (case key of
                None \<Rightarrow> s1
              | Some k \<Rightarrow>
                  if k \<noteq> 0
                  then s1\<lparr>v := (v s1)(x := of_nat k), paused := False, onNextKeyPress := None\<rparr>
                  else s1))"

definition onKeyUp :: "chip8 \<Rightarrow> nat \<Rightarrow> chip8" where
  "onKeyUp s w = s\<lparr>keysPressed := (keysPressed s)(keymap w := Some False)\<rparr>"

section \<open>CPU\<close>

subsection \<open>The loops of the opcode handlers\<close>

text \<open>
  Fx55: \<^verbatim>\<open>for (registerIndex = 0; registerIndex <= x; registerIndex++)
  this.memory[this.i + registerIndex] = this.v[registerIndex]\<close>, from
  \<open>registerIndex = r\<close> on.
\<close>

function store_registers :: "chip8 \<Rightarrow> nat \<Rightarrow> nat \<Rightarrow> chip8" where
  "store_registers s x r =
     (if r \<le> x
      then store_registers (s\<lparr>memory := mem_write (memory s) (i s + r) (v s r)\<rparr>) x (Suc r)
      else s)"
  by pat_completeness auto
termination
  by (relation "measure (\<lambda>(s, x, r). Suc x - r)") auto

declare store_registers.simps [simp del]

text \<open>Fx65: the same loop with \<^verbatim>\<open>this.v[registerIndex] = this.memory[this.i + registerIndex]\<close>.\<close>

function load_registers :: "chip8 \<Rightarrow> nat \<Rightarrow> nat \<Rightarrow> chip8" where
  "load_registers s x r =
     (if r \<le> x
      then load_registers (s\<lparr>v := (v s)(r := mem_read (memory s) (i s + r))\<rparr>) x (Suc r)
      else s)"
  by pat_completeness auto
termination
  by (relation "measure (\<lambda>(s, x, r). Suc x - r)") auto

declare load_registers.simps [simp del]

text \<open>
  Dxyn, the inner loop \<^verbatim>\<open>for (col = 0; col < width; col++)\<close> with \<^verbatim>\<open>width = 8\<close>,
  from column \<open>col\<close> on.  \<^verbatim>\<open>sprite\<close> is a plain number: \<^verbatim>\<open>sprite <<= 1\<close> does
  not truncate it to 8 bits.  \<^verbatim>\<open>this.v[x]\<close> and \<^verbatim>\<open>this.v[y]\<close> are read again in
  every iteration.
\<close>

function draw_cols :: "chip8 \<Rightarrow> nat \<Rightarrow> nat \<Rightarrow> nat \<Rightarrow> nat \<Rightarrow> nat \<Rightarrow> chip8" where
  "draw_cols s x y row sprite col =
     (if col < 8
      then draw_cols
             (if sprite AND 0x80 > 0
              then (case setPixel (display s) (uint (v s x) + int col) (uint (v s y) + int row) of
                      (d, erased) \<Rightarrow>
                        if erased then s\<lparr>display := d, v := (v s)(0xf := 1)\<rparr>
                        else s\<lparr>display := d\<rparr>)
              else s)
             x y row (push_bit 1 sprite) (Suc col)
      else s)"
  by pat_completeness auto
termination
  by (relation "measure (\<lambda>(s, x, y, row, sprite, col). 8 - col)") auto

declare draw_cols.simps [simp del]

text \<open>Dxyn, the outer loop \<^verbatim>\<open>for (row = 0; row < height; row++)\<close>, from \<open>row\<close> on.\<close>

function draw_rows :: "chip8 \<Rightarrow> nat \<Rightarrow> nat \<Rightarrow> nat \<Rightarrow> nat \<Rightarrow> chip8" where
  "draw_rows s x y height row =
     (if row < height
      then draw_rows (draw_cols s x y row (unat (mem_read (memory s) (i s + row))) 0)
             x y height (Suc row)
      else s)"
  by pat_completeness auto
termination
  by (relation "measure (\<lambda>(s, x, y, height, row). height - row)") auto

declare draw_rows.simps [simp del]

subsection \<open>executeInstruction\<close>

text \<open>\<^verbatim>\<open>this.stack.pop()\<close>: the popped value (\<^verbatim>\<open>undefined\<close> on the empty array) and the rest.\<close>

definition stack_pop :: "jsnum list \<Rightarrow> jsnum \<times> jsnum list" where
  "stack_pop st = (if st = [] then (Undefined, []) else (last st, butlast st))"

text \<open>
  \<^verbatim>\<open>case 0x8000: switch (opcode & 0xf)\<close>.  The statements of a case run in the
  source's order on the register file, which matters when \<open>x\<close> or \<open>y\<close> is 0xf.
  In case 4, \<^verbatim>\<open>let sum = (this.v[x] += this.v[y])\<close> gives \<^verbatim>\<open>sum\<close> the sum before
  the store truncates it.  The inner switch has no default.
\<close>

definition exec_8 :: "chip8 \<Rightarrow> nat \<Rightarrow> nat \<Rightarrow> nat \<Rightarrow> chip8" where
  "exec_8 s x y opcode =
     (let n = opcode AND 0xf; r = v s in
      if n = 0x0 then s\<lparr>v := r(x := r y)\<rparr>
      else if n = 0x1 then s\<lparr>v := r(x := r x OR r y)\<rparr>
      else if n = 0x2 then s\<lparr>v := r(x := r x AND r y)\<rparr>
      else if n = 0x3 then s\<lparr>v := r(x := r x XOR r y)\<rparr>
      else if n = 0x4 then
        (let sum = unat (r x) + unat (r y);
             r1 = r(x := of_nat sum);
             r2 = r1(0xf := 0);
             r3 = (if sum > 0xff then r2(0xf := 1) else r2)
         in s\<lparr>v := r3(x := of_nat sum)\<rparr>)
      else if n = 0x5 then
        (let r1 = r(0xf := 0);
             r2 = (if r1 x > r1 y then r1(0xf := 1) else r1)
         in s\<lparr>v := r2(x := r2 x - r2 y)\<rparr>)
      else if n = 0x6 then
        (let r1 = r(0xf := r x AND 0x1)
         in s\<lparr>v := r1(x := drop_bit 1 (r1 x))\<rparr>)
      else if n = 0x7 then
        (let r1 = r(0xf := 0);
             r2 = (if r1 y > r1 x then r1(0xf := 1) else r1)
         in s\<lparr>v := r2(x := r2 y - r2 x)\<rparr>)
      else if n = 0xe then
        (let r1 = r(0xf := r x AND 0x80)
         in s\<lparr>v := r1(x := push_bit 1 (r1 x))\<rparr>)
      else s)"

text \<open>\<^verbatim>\<open>case 0xd000\<close>: \<^verbatim>\<open>height = opcode & 0xf\<close>, \<^verbatim>\<open>this.v[0xf] = 0\<close>, then the loops.\<close>

definition exec_D :: "chip8 \<Rightarrow> nat \<Rightarrow> nat \<Rightarrow> nat \<Rightarrow> chip8" where
  "exec_D s x y opcode =
     draw_rows (s\<lparr>v := (v s)(0xf := 0)\<rparr>) x y (opcode AND 0xf) 0"

text \<open>\<^verbatim>\<open>case 0xe000: switch (opcode & 0xff)\<close>, no default.\<close>

definition exec_E :: "chip8 \<Rightarrow> nat \<Rightarrow> nat \<Rightarrow> chip8" where
  "exec_E s x opcode =
     (let kk = opcode AND 0xff in
      if kk = 0x9e then
        (if isKeyPressed s (unat (v s x)) then s\<lparr>pc := js_add (pc s) 2\<rparr> else s)
      else if kk = 0xa1 then
        (if \<not> isKeyPressed s (unat (v s x)) then s\<lparr>pc := js_add (pc s) 2\<rparr> else s)
      else s)"

text \<open>
  \<^verbatim>\<open>case 0xf000: switch (opcode & 0xff)\<close>, no default.  In case 0x33,
  \<^verbatim>\<open>parseInt\<close> of the quotients is their integer part.
\<close>

definition exec_F :: "chip8 \<Rightarrow> nat \<Rightarrow> nat \<Rightarrow> chip8" where
  "exec_F s x opcode =
     (let kk = opcode AND 0xff in
      if kk = 0x07 then s\<lparr>v := (v s)(x := of_int (delayTimer s))\<rparr>
      else if kk = 0x0a then s\<lparr>paused := True, onNextKeyPress := Some x\<rparr>
      else if kk = 0x15 then s\<lparr>delayTimer := uint (v s x)\<rparr>
      else if kk = 0x18 then s\<lparr>soundTimer := uint (v s x)\<rparr>
      else if kk = 0x1e then s\<lparr>i := i s + unat (v s x)\<rparr>
      else if kk = 0x29 then s\<lparr>i := unat (v s x) * 5\<rparr>
      else if kk = 0x33 then
        (let m1 = mem_write (memory s) (i s) (of_nat (unat (v s x) div 100));
             m2 = mem_write m1 (i s + 1) (of_nat ((unat (v s x) mod 100) div 10));
             m3 = mem_write m2 (i s + 2) (of_nat (unat (v s x) mod 10))
         in s\<lparr>memory := m3\<rparr>)
      else if kk = 0x55 then store_registers s x 0
      else if kk = 0x65 then load_registers s x 0
      else s)"

text \<open>
  \<^verbatim>\<open>executeInstruction(opcode)\<close>.  \<open>rand\<close> is the value of
  \<^verbatim>\<open>Math.floor(Math.random() * 0xff)\<close>, which only case 0xc000 uses.  The result
  is \<open>Inl\<close> for the \<^verbatim>\<open>throw\<close> of the outer switch's default.
\<close>

definition executeInstruction :: "chip8 \<Rightarrow> nat \<Rightarrow> nat \<Rightarrow> error + chip8" where
  "executeInstruction s0 rand opcode =
     (let s = s0\<lparr>pc := js_add (pc s0) 2\<rparr>;
          x = drop_bit 8 (opcode AND 0x0f00);
          y = drop_bit 4 (opcode AND 0x00f0);
          g = opcode AND 0xf000
      in
      if g = 0x0000 then
        (if opcode = 0x00e0 then Inr (s\<lparr>display := clear\<rparr>)
         else if opcode = 0x00ee then
           (case stack_pop (stack s) of (ret, rest) \<Rightarrow> Inr (s\<lparr>stack := rest, pc := ret\<rparr>))
         else Inr s)
      else if g = 0x1000 then Inr (s\<lparr>pc := Num (opcode AND 0xfff)\<rparr>)
      else if g = 0x2000 then
        Inr (s\<lparr>stack := stack s @ [pc s], pc := Num (opcode AND 0xfff)\<rparr>)
      else if g = 0x3000 then
        Inr (if unat (v s x) = opcode AND 0xff then s\<lparr>pc := js_add (pc s) 2\<rparr> else s)
      else if g = 0x4000 then
        Inr (if unat (v s x) \<noteq> opcode AND 0xff then s\<lparr>pc := js_add (pc s) 2\<rparr> else s)
      else if g = 0x5000 then
        Inr (if v s x = v s y then s\<lparr>pc := js_add (pc s) 2\<rparr> else s)
      else if g = 0x6000 then Inr (s\<lparr>v := (v s)(x := of_nat (opcode AND 0xff))\<rparr>)
      else if g = 0x7000 then Inr (s\<lparr>v := (v s)(x := v s x + of_nat (opcode AND 0xff))\<rparr>)
      else if g = 0x8000 then Inr (exec_8 s x y opcode)
      else if g = 0x9000 then
        Inr (if v s x \<noteq> v s y then s\<lparr>pc := js_add (pc s) 2\<rparr> else s)
      else if g = 0xa000 then Inr (s\<lparr>i := opcode AND 0xfff\<rparr>)
      else if g = 0xb000 then Inr (s\<lparr>pc := Num ((opcode AND 0xfff) + unat (v s 0))\<rparr>)
      else if g = 0xc000 then
        Inr (s\<lparr>v := (v s)(x := of_nat (rand AND (opcode AND 0xff)))\<rparr>)
      else if g = 0xd000 then Inr (exec_D s x y opcode)
      else if g = 0xe000 then Inr (exec_E s x opcode)
      else if g = 0xf000 then Inr (exec_F s x opcode)
      else Inl (UnknownOpcode opcode))"

subsection \<open>loadProgramIntoMemory\<close>

text \<open>
  \<^verbatim>\<open>loadProgramIntoMemory(program)\<close>: the loop
  \<^verbatim>\<open>for (i = 0; i < program.length; i++) this.memory[0x200 + i] = program[i]\<close>
  from index \<open>k\<close> on; \<^verbatim>\<open>program\<close> is a \<^verbatim>\<open>Uint8Array\<close>.
\<close>

function loadProgram_loop :: "chip8 \<Rightarrow> 8 word list \<Rightarrow> nat \<Rightarrow> chip8" where
  "loadProgram_loop s program k =
     (if k < length program
      then loadProgram_loop
             (s\<lparr>memory := mem_write (memory s) (0x200 + k) (program ! k)\<rparr>) program (Suc k)
      else s)"
  by pat_completeness auto
termination
  by (relation "measure (\<lambda>(s, program, k). length program - k)") auto

declare loadProgram_loop.simps [simp del]

definition loadProgramIntoMemory :: "chip8 \<Rightarrow> 8 word list \<Rightarrow> chip8" where
  "loadProgramIntoMemory s program = loadProgram_loop s program 0"

subsection \<open>What the loops leave alone\<close>

text \<open>
  Each loop writes one or two fields of the machine; the results below say so by
  rebuilding the final state from the initial one.
\<close>

lemma store_registers_frame:
  "store_registers s x r = s\<lparr>memory := memory (store_registers s x r)\<rparr>"
proof (induction s x r rule: store_registers.induct)
  case (1 s x r)
  show ?case
  proof (cases "r \<le> x")
    case True
    from 1 [OF True] show ?thesis
      by (subst (1 2) store_registers.simps) (simp add: True)
  next
    case False
    then show ?thesis by (simp add: store_registers.simps)
  qed
qed

lemma load_registers_frame:
  "load_registers s x r = s\<lparr>v := v (load_registers s x r)\<rparr>"
proof (induction s x r rule: load_registers.induct)
  case (1 s x r)
  show ?case
  proof (cases "r \<le> x")
    case True
    from 1 [OF True] show ?thesis
      by (subst (1 2) load_registers.simps) (simp add: True)
  next
    case False
    then show ?thesis by (simp add: load_registers.simps)
  qed
qed

lemma draw_cols_frame:
  "draw_cols s x y row sprite col =
     s\<lparr>v := v (draw_cols s x y row sprite col),
       display := display (draw_cols s x y row sprite col)\<rparr>"
proof (induction s x y row sprite col rule: draw_cols.induct)
  case (1 s x y row sprite col)
  show ?case
  proof (cases "col < 8")
    case True
    from 1 [OF True] show ?thesis
      by (subst (1 2 3) draw_cols.simps) (simp add: True split: prod.splits if_splits)
  next
    case False
    then show ?thesis by (simp add: draw_cols.simps)
  qed
qed

lemma frame_trans:
  "t = s\<lparr>v := a, display := b\<rparr> \<Longrightarrow> u = t\<lparr>v := c, display := d\<rparr> \<Longrightarrow>
   u = s\<lparr>v := c, display := d\<rparr>"
  by simp

lemma draw_rows_frame:
  "draw_rows s x y height row =
     s\<lparr>v := v (draw_rows s x y height row),
       display := display (draw_rows s x y height row)\<rparr>"
proof (induction s x y height row rule: draw_rows.induct)
  case (1 s x y height row)
  show ?case
  proof (cases "row < height")
    case True
    let ?c = "draw_cols s x y row (unat (mem_read (memory s) (i s + row))) 0"
    have step: "draw_rows s x y height row = draw_rows ?c x y height (Suc row)"
      by (subst draw_rows.simps) (simp add: True)
    show ?thesis
      unfolding step
      by (rule frame_trans [OF draw_cols_frame 1 [OF True]])
  next
    case False
    then show ?thesis by (simp add: draw_rows.simps)
  qed
qed

lemma store_registers_speed: "speed (store_registers s x r) = speed s"
  by (subst store_registers_frame) simp

lemma load_registers_speed: "speed (load_registers s x r) = speed s"
  by (subst load_registers_frame) simp

lemma draw_rows_speed: "speed (draw_rows s x y height row) = speed s"
  by (subst draw_rows_frame) simp

lemma exec_8_speed: "speed (exec_8 s x y opcode) = speed s"
  by (simp add: exec_8_def Let_def)

lemma exec_D_speed: "speed (exec_D s x y opcode) = speed s"
  by (simp add: exec_D_def draw_rows_speed)

lemma exec_E_speed: "speed (exec_E s x opcode) = speed s"
  by (simp add: exec_E_def Let_def)

lemma exec_F_speed: "speed (exec_F s x opcode) = speed s"
  by (simp add: exec_F_def Let_def store_registers_speed load_registers_speed)

lemma executeInstruction_speed:
  "executeInstruction s rnd opcode = Inr s' \<Longrightarrow> speed s' = speed s"
  by (auto simp: executeInstruction_def Let_def exec_8_speed exec_D_speed exec_E_speed
        exec_F_speed split: if_splits prod.splits)

subsection \<open>cycle\<close>

text \<open>\<^verbatim>\<open>(this.memory[this.pc] << 8) | this.memory[this.pc + 1]\<close>.\<close>

definition fetch :: "chip8 \<Rightarrow> nat" where
  "fetch s =
     push_bit 8 (unat (mem_read_pc (memory s) (pc s)))
       OR unat (mem_read_pc (memory s) (js_add (pc s) 1))"

text \<open>
  The loop \<^verbatim>\<open>for (let i = 0; i < this.speed; i++)\<close> of \<^verbatim>\<open>cycle\<close>, from the
  iteration \<open>k\<close> on.  \<open>rnd k\<close> is the random number that iteration \<open>k\<close> would
  draw.  An exception leaves the loop and \<^verbatim>\<open>cycle\<close>.
\<close>

function cycle_loop :: "chip8 \<Rightarrow> (nat \<Rightarrow> nat) \<Rightarrow> nat \<Rightarrow> error + chip8" where
  "cycle_loop s rnd k =
     (if k < speed s
      then if \<not> paused s
           then (case executeInstruction s (rnd k) (fetch s) of
                   Inl e \<Rightarrow> Inl e
                 | Inr s' \<Rightarrow> cycle_loop s' rnd (Suc k))
           else cycle_loop s rnd (Suc k)
      else Inr s)"
  by pat_completeness auto
termination
  by (relation "measure (\<lambda>(s, rnd, k). speed s - k)")
    (auto dest: executeInstruction_speed)

declare cycle_loop.simps [simp del]

definition updateTimers :: "chip8 \<Rightarrow> chip8" where
  "updateTimers s =
     (let s1 = (if delayTimer s > 0 then s\<lparr>delayTimer := delayTimer s - 1\<rparr> else s)
      in if soundTimer s1 > 0 then s1\<lparr>soundTimer := soundTimer s1 - 1\<rparr> else s1)"

text \<open>
  \<^verbatim>\<open>cycle()\<close>.  The calls \<^verbatim>\<open>this.playSound()\<close> and \<^verbatim>\<open>this.renderer.render()\<close>
  that end it read the machine and write to the speaker and the canvas only.
\<close>

definition cycle :: "chip8 \<Rightarrow> (nat \<Rightarrow> nat) \<Rightarrow> error + chip8" where
  "cycle s rnd =
     (case cycle_loop s rnd 0 of
        Inl e \<Rightarrow> Inl e
      | Inr s1 \<Rightarrow> Inr (if \<not> paused s1 then updateTimers s1 else s1))"

text \<open>The machine that the constructors of CPU, Renderer and Keyboard build.\<close>

definition init :: chip8 where
  "init = \<lparr>memory = (\<lambda>a. 0), v = (\<lambda>r. 0), i = 0, delayTimer = 0, soundTimer = 0,
     pc = Num 0x200, stack = [], paused = False, speed = 10,
     display = (\<lambda>p. None), keysPressed = (\<lambda>k. None), onNextKeyPress = None\<rparr>"

subsection \<open>The driver\<close>

text \<open>
  The driver of \<^verbatim>\<open>chip8.js\<close> calls \<^verbatim>\<open>cpu.cycle()\<close> again and again; \<open>cycles n\<close> is
  \<open>n\<close> such calls, for programs that draw no random number (\<open>no_random\<close> stands
  for the draws that are never made).
\<close>

definition no_random :: "nat \<Rightarrow> nat" where
  "no_random k = 0"

fun cycles :: "nat \<Rightarrow> chip8 \<Rightarrow> error + chip8" where
  "cycles 0 s = Inr s"
| "cycles (Suc n) s =
     (case cycle s no_random of Inl e \<Rightarrow> Inl e | Inr s' \<Rightarrow> cycles n s')"

section \<open>Definitions for the proofs\<close>

text \<open>
  None of the following is code of the emulator: these functions name what the
  loops of Dxyn compute, which instructions one call of \<^verbatim>\<open>cycle\<close> executes, and
  a small program used as an example.
\<close>

text \<open>
  The instructions that the loop of \<^verbatim>\<open>cycle\<close> executes from iteration \<open>k\<close> on,
  in order: each with the machine it is executed on and the opcode fetched.  The
  recursion is that of \<open>cycle_loop\<close>.
\<close>

function executed :: "chip8 \<Rightarrow> (nat \<Rightarrow> nat) \<Rightarrow> nat \<Rightarrow> (chip8 \<times> nat) list" where
  "executed s rnd k =
     (if k < speed s
      then if \<not> paused s
           then (case executeInstruction s (rnd k) (fetch s) of
                   Inl e \<Rightarrow> [(s, fetch s)]
                 | Inr s' \<Rightarrow> (s, fetch s) # executed s' rnd (Suc k))
           else executed s rnd (Suc k)
      else [])"
  by pat_completeness auto
termination
  by (relation "measure (\<lambda>(s, rnd, k). speed s - k)")
    (auto dest: executeInstruction_speed)

declare executed.simps [simp del]

text \<open>
  \<open>sets_timer 0x15\<close> holds of the opcodes Fx15 (\<^verbatim>\<open>this.delayTimer = this.v[x]\<close>),
  \<open>sets_timer 0x18\<close> of the opcodes Fx18 (\<^verbatim>\<open>this.soundTimer = this.v[x]\<close>).
\<close>

definition sets_timer :: "nat \<Rightarrow> nat \<Rightarrow> bool" where
  "sets_timer kk opcode = (opcode AND 0xf000 = 0xf000 \<and> opcode AND 0xff = kk)"

text \<open>
  The value of a timer that starts at \<open>d\<close> once the instructions of a list have
  run, if the instructions selected by \<open>kk\<close> set it to \<open>Vx\<close> and no other
  instruction touches it.
\<close>

fun timer_after :: "nat \<Rightarrow> int \<Rightarrow> (chip8 \<times> nat) list \<Rightarrow> int" where
  "timer_after kk d [] = d"
| "timer_after kk d ((s, opcode) # rest) =
     timer_after kk
       (if sets_timer kk opcode then uint (v s (drop_bit 8 (opcode AND 0x0f00))) else d) rest"

text \<open>
  The index \<^verbatim>\<open>x + y * this.cols\<close> that \<^verbatim>\<open>setPixel(x, y)\<close> computes after its two
  wrap-around tests.
\<close>

definition pixel_index :: "int \<Rightarrow> int \<Rightarrow> int" where
  "pixel_index x y =
     (if x > cols then x - cols else if x < 0 then x + cols else x)
     + (if y > rows then y - rows else if y < 0 then y + rows else y) * cols"

text \<open>
  What one iteration of the inner loop of Dxyn does to the machine when the
  sprite bit is set and the pixel has index \<open>p\<close>.
\<close>

definition toggle :: "int \<Rightarrow> chip8 \<Rightarrow> chip8" where
  "toggle p s =
     (if xor1 (display s p) = 0
      then s\<lparr>display := (display s)(p := Some (xor1 (display s p))), v := (v s)(0xf := 1)\<rparr>
      else s\<lparr>display := (display s)(p := Some (xor1 (display s p)))\<rparr>)"

text \<open>
  The indices that the inner loop toggles from column \<open>col\<close> on, in order, when
  the registers hold \<open>vx\<close> and \<open>vy\<close>; then those of the outer loop from \<open>row\<close> on.
\<close>

function row_pixels :: "int \<Rightarrow> int \<Rightarrow> nat \<Rightarrow> nat \<Rightarrow> nat \<Rightarrow> int list" where
  "row_pixels vx vy row sprite col =
     (if col < 8
      then (if sprite AND 0x80 > 0 then [pixel_index (vx + int col) (vy + int row)] else [])
           @ row_pixels vx vy row (push_bit 1 sprite) (Suc col)
      else [])"
  by pat_completeness auto
termination
  by (relation "measure (\<lambda>(vx, vy, row, sprite, col). 8 - col)") auto

declare row_pixels.simps [simp del]

function sprite_pixels :: "(nat \<Rightarrow> 8 word) \<Rightarrow> nat \<Rightarrow> int \<Rightarrow> int \<Rightarrow> nat \<Rightarrow> nat \<Rightarrow> int list" where
  "sprite_pixels m a vx vy height row =
     (if row < height
      then row_pixels vx vy row (unat (mem_read m (a + row))) 0
           @ sprite_pixels m a vx vy height (Suc row)
      else [])"
  by pat_completeness auto
termination
  by (relation "measure (\<lambda>(m, a, vx, vy, height, row). height - row)") auto

declare sprite_pixels.simps [simp del]

text \<open>The indices that Dxyn toggles on machine \<open>s\<close>, in the order of the two loops.\<close>

definition touched :: "chip8 \<Rightarrow> nat \<Rightarrow> nat \<Rightarrow> nat \<Rightarrow> int list" where
  "touched s x y opcode =
     sprite_pixels (memory s) (i s) (uint (v s x)) (uint (v s y)) (opcode AND 0xf) 0"

text \<open>
  The program \<^verbatim>\<open>60FF AFFF F01E 1204\<close>: \<open>V0 = 0xFF\<close>, \<open>I = 0xFFF\<close>, then
  \<open>I += V0\<close> and a jump back to it, for ever.
\<close>

definition adder_rom :: "8 word list" where
  "adder_rom = [0x60, 0xff, 0xaf, 0xff, 0xf0, 0x1e, 0x12, 0x04]"

definition adder_state :: "nat \<Rightarrow> chip8" where
  "adder_state n =
     (loadProgramIntoMemory init adder_rom)\<lparr>v := (v init)(0 := 0xff), i := n, pc := Num 0x204\<rparr>"

section \<open>Decoding\<close>

text \<open>
  \<^verbatim>\<open>opcode & 0xf000\<close> keeps bits 12 to 15, so it is one of the sixteen case labels
  of the outer switch whatever the opcode is.
\<close>

lemma and_f000:
  fixes n :: nat
  shows "n AND 0xf000 = push_bit 12 (take_bit 4 (drop_bit 12 n))"
proof -
  have "(0xf000::nat) = push_bit 12 (mask 4)" by (simp add: mask_eq_exp_minus_1)
  then show ?thesis
    by (auto simp: bit_eq_iff bit_simps)
qed

lemma top_nibble_cases:
  fixes n :: nat
  shows "n AND 0xf000 \<in> {0, 0x1000, 0x2000, 0x3000, 0x4000, 0x5000, 0x6000, 0x7000,
     0x8000, 0x9000, 0xa000, 0xb000, 0xc000, 0xd000, 0xe000, 0xf000}"
proof -
  define k where "k = take_bit 4 (drop_bit 12 n)"
  have "k < 16"
    by (simp add: k_def take_bit_eq_mod)
  then have "k = 0 \<or> k = 1 \<or> k = 2 \<or> k = 3 \<or> k = 4 \<or> k = 5 \<or> k = 6 \<or> k = 7
     \<or> k = 8 \<or> k = 9 \<or> k = 10 \<or> k = 11 \<or> k = 12 \<or> k = 13 \<or> k = 14 \<or> k = 15"
    by arith
  moreover have "n AND 0xf000 = push_bit 12 k"
    by (simp add: k_def and_f000)
  ultimately show ?thesis
    by (auto simp: push_bit_eq_mult)
qed

lemma executeInstruction_never_throws: "\<exists>s'. executeInstruction s rnd opcode = Inr s'"
  using top_nibble_cases [of opcode]
  by (auto simp: executeInstruction_def Let_def split: prod.splits)

text \<open>
  Claim C1: an instruction word whose top nibble selects no group, or whose
  sub-selector selects no sub-opcode of its group, ends in a reported decode error
  that halts instruction processing.

  The code does not behave so.  The \<^verbatim>\<open>throw\<close> sits in the default of the outer
  switch only, which no opcode reaches: \<open>executeInstruction\<close> returns normally for
  every opcode.  The inner switches have no default, so an undefined sub-selector
  (0x0000, 0x8008, 0xe000, 0xf0ff) only advances the program counter by 2.
\<close>

theorem C1_undefined_sub_opcode_is_skipped:
  "(\<forall>opcode. \<exists>s'. executeInstruction s rnd opcode = Inr s')
   \<and> executeInstruction s rnd 0x0000 = Inr (s\<lparr>pc := js_add (pc s) 2\<rparr>)
   \<and> executeInstruction s rnd 0x8008 = Inr (s\<lparr>pc := js_add (pc s) 2\<rparr>)
   \<and> executeInstruction s rnd 0xe000 = Inr (s\<lparr>pc := js_add (pc s) 2\<rparr>)
   \<and> executeInstruction s rnd 0xf0ff = Inr (s\<lparr>pc := js_add (pc s) 2\<rparr>)"
proof -
  have "executeInstruction s rnd 0x0000 = Inr (s\<lparr>pc := js_add (pc s) 2\<rparr>)"
    by (simp add: executeInstruction_def)
  moreover have "executeInstruction s rnd 0x8008 = Inr (s\<lparr>pc := js_add (pc s) 2\<rparr>)"
    by (simp add: executeInstruction_def exec_8_def)
  moreover have "executeInstruction s rnd 0xe000 = Inr (s\<lparr>pc := js_add (pc s) 2\<rparr>)"
    by (simp add: executeInstruction_def exec_E_def)
  moreover have "executeInstruction s rnd 0xf0ff = Inr (s\<lparr>pc := js_add (pc s) 2\<rparr>)"
    by (simp add: executeInstruction_def exec_F_def)
  ultimately show ?thesis
    using executeInstruction_never_throws by blast
qed

section \<open>Opcode handlers\<close>

subsection \<open>Dispatch on the group\<close>

lemma executeInstruction_8:
  "opcode AND 0xf000 = 0x8000 \<Longrightarrow>
   executeInstruction s rnd opcode =
     Inr (exec_8 (s\<lparr>pc := js_add (pc s) 2\<rparr>)
            (drop_bit 8 (opcode AND 0x0f00)) (drop_bit 4 (opcode AND 0x00f0)) opcode)"
  by (simp add: executeInstruction_def Let_def)

lemma executeInstruction_F:
  "opcode AND 0xf000 = 0xf000 \<Longrightarrow>
   executeInstruction s rnd opcode =
     Inr (exec_F (s\<lparr>pc := js_add (pc s) 2\<rparr>) (drop_bit 8 (opcode AND 0x0f00)) opcode)"
  by (simp add: executeInstruction_def Let_def)

lemma executeInstruction_D:
  "opcode AND 0xf000 = 0xd000 \<Longrightarrow>
   executeInstruction s rnd opcode =
     Inr (exec_D (s\<lparr>pc := js_add (pc s) 2\<rparr>)
            (drop_bit 8 (opcode AND 0x0f00)) (drop_bit 4 (opcode AND 0x00f0)) opcode)"
  by (simp add: executeInstruction_def Let_def)

lemma and_exp_word:
  fixes w :: "8 word"
  shows "w AND 2 ^ n = (if bit w n then 2 ^ n else 0)"
  by (rule bit_eqI) (auto simp: bit_simps)

lemma and_0x80:
  fixes w :: "8 word"
  shows "w AND 0x80 = (if bit w 7 then 0x80 else 0)"
  using and_exp_word [of w 7] by simp

lemma shl_0x80:
  fixes w :: "8 word"
  shows "push_bit 1 (w AND 0x80) = 0"
  by (simp add: and_0x80)

lemma unat_shl:
  fixes w :: "8 word"
  shows "unat (push_bit 1 w) = (2 * unat w) mod 256"
  by (simp add: unat_word_ariths mult.commute)

lemma exec_8_shl:
  "opcode AND 0xf = 0xe \<Longrightarrow>
   v (exec_8 s x y opcode) =
     (if x = 0xf then (v s)(0xf := 0)
      else (v s)(0xf := v s x AND 0x80, x := push_bit 1 (v s x)))"
  using shl_0x80 [of "v s 15"]
  by (simp add: exec_8_def Let_def del: push_bit_Suc)

subsection \<open>8xy4: ADD\<close>

text \<open>
  Claim C6: for all register indices and all 8-bit values \<open>a\<close>, \<open>b\<close>, opcode 8XY4
  with \<open>Vx = a\<close> and \<open>Vy = b\<close> yields \<open>Vx = (a + b) mod 256\<close> and \<open>VF = 1\<close> if and
  only if \<open>a + b > 255\<close>, else 0.

  This fails for \<open>X = 0xF\<close>, where no machine can satisfy both halves: the handler
  ends with \<^verbatim>\<open>this.v[x] = sum\<close>, which then overwrites the flag.  With
  \<open>VF = 1\<close> and \<open>V0 = 1\<close>, opcode 8F04 leaves \<open>VF = 2\<close>.
\<close>

theorem C6_counterexample:
  "v (projr (executeInstruction (init\<lparr>v := (v init)(0xf := 1, 0 := 1)\<rparr>) 0 0x8f04)) 0xf = 2
   \<and> unat (1 :: 8 word) + unat (1 :: 8 word) \<le> 255"
  by (simp add: executeInstruction_def exec_8_def Let_def)

text \<open>
  Claim C6, amended: for every \<open>X\<close> and \<open>Y\<close>, 8XY4 stores \<open>(a + b) mod 256\<close> in
  \<open>Vx\<close>; for \<open>X \<noteq> 0xF\<close> it sets \<open>VF\<close> to 1 if \<open>a + b > 255\<close> and to 0 otherwise;
  for \<open>X = 0xF\<close> the register \<open>VF\<close> holds the truncated sum.
\<close>

theorem C6_add_with_carry:
  assumes "opcode AND 0xf000 = 0x8000" and "opcode AND 0xf = 0x4"
    and "x = drop_bit 8 (opcode AND 0x0f00)" and "y = drop_bit 4 (opcode AND 0x00f0)"
  shows "\<exists>s'. executeInstruction s rnd opcode = Inr s'
     \<and> unat (v s' x) = (unat (v s x) + unat (v s y)) mod 256
     \<and> v s' 0xf =
         (if x = 0xf then v s x + v s y
          else if unat (v s x) + unat (v s y) > 255 then 1 else 0)"
  using assms
  by (simp add: executeInstruction_def exec_8_def Let_def unat_word_ariths)

theorem C6_add_with_carry_witness:
  "(0x8014::nat) AND 0xf000 = 0x8000 \<and> (0x8014::nat) AND 0xf = 0x4
   \<and> (0::nat) = drop_bit 8 (0x8014 AND 0x0f00) \<and> (1::nat) = drop_bit 4 (0x8014 AND 0x00f0)
   \<and> (\<exists>s'. executeInstruction (init\<lparr>v := (v init)(0 := 200, 1 := 100)\<rparr>) 0 0x8014 = Inr s'
         \<and> unat (v s' 0) = 44 \<and> v s' 0xf = 1)"
  using C6_add_with_carry [of "0x8014" 0 1 "init\<lparr>v := (v init)(0 := 200, 1 := 100)\<rparr>" 0]
  by simp

subsection \<open>8xyE: shift left\<close>

text \<open>
  Claim C7: for every value \<open>w\<close> of the target register, 8XYE stores the most
  significant bit of \<open>w\<close>, unmasked (0x00 or 0x80), in \<open>VF\<close> and \<open>w << 1\<close> truncated
  to 8 bits in the target register; 0x81 gives register 0x02 and \<open>VF = 0x80\<close>.

  This fails when the target register is \<open>VF\<close> itself: \<^verbatim>\<open>this.v[x] <<= 1\<close> then
  shifts the flag just stored.  With \<open>VF = 0x81\<close>, opcode 8F0E leaves \<open>VF = 0\<close>,
  which is neither 0x80 nor 0x02.
\<close>

theorem C7_counterexample:
  "v (projr (executeInstruction (init\<lparr>v := (v init)(0xf := 0x81)\<rparr>) 0 0x8f0e)) 0xf = 0
   \<and> (0x81 :: 8 word) AND 0x80 = 0x80 \<and> push_bit 1 (0x81 :: 8 word) = 0x02"
  by (simp add: executeInstruction_def exec_8_def Let_def)

text \<open>
  Claim C7, amended: for every target register other than \<open>VF\<close> and every value
  \<open>w\<close> in it, 8XYE stores \<open>w AND 0x80\<close> (0x00 or 0x80) in \<open>VF\<close> and
  \<open>(2 * w) mod 256\<close> in the target register; when the target is \<open>VF\<close>, it ends
  as 0.
\<close>

theorem C7_shift_left:
  assumes "opcode AND 0xf000 = 0x8000" and "opcode AND 0xf = 0xe"
    and "x = drop_bit 8 (opcode AND 0x0f00)"
  shows "\<exists>s'. executeInstruction s rnd opcode = Inr s'
     \<and> v s' 0xf = (if x = 0xf then 0 else v s x AND 0x80)
     \<and> v s' x = (if x = 0xf then 0 else push_bit 1 (v s x))
     \<and> unat (push_bit 1 (v s x)) = (2 * unat (v s x)) mod 256
     \<and> (v s x AND 0x80 = 0 \<or> v s x AND 0x80 = 0x80)"
proof -
  let ?s' = "exec_8 (s\<lparr>pc := js_add (pc s) 2\<rparr>) x (drop_bit 4 (opcode AND 0x00f0)) opcode"
  have "executeInstruction s rnd opcode = Inr ?s'"
    using assms(1,3) by (simp only: executeInstruction_8)
  moreover have "v ?s' = (if x = 0xf then (v s)(0xf := 0)
      else (v s)(0xf := v s x AND 0x80, x := push_bit 1 (v s x)))"
    using assms(2) by (simp only: exec_8_shl) simp
  moreover have "v s x AND 0x80 = 0 \<or> v s x AND 0x80 = 0x80"
    by (simp add: and_0x80)
  ultimately show ?thesis
    by (simp only: unat_shl) auto
qed

theorem C7_shift_left_witness:
  "(0x812e::nat) AND 0xf000 = 0x8000 \<and> (0x812e::nat) AND 0xf = 0xe
   \<and> (1::nat) = drop_bit 8 (0x812e AND 0x0f00)
   \<and> (\<exists>s'. executeInstruction (init\<lparr>v := (v init)(1 := 0x81)\<rparr>) 0 0x812e = Inr s'
         \<and> v s' 0xf = 0x80 \<and> v s' 1 = 0x02)"
proof -
  have a: "(0x812e::nat) AND 0xf000 = 0x8000" "(0x812e::nat) AND 0xf = 0xe"
    "(1::nat) = drop_bit 8 (0x812e AND 0x0f00)"
    by simp_all
  from C7_shift_left [OF a, of "init\<lparr>v := (v init)(1 := 0x81)\<rparr>" 0]
  obtain s' where s': "executeInstruction (init\<lparr>v := (v init)(1 := 0x81)\<rparr>) 0 0x812e = Inr s'"
    "v s' 0xf = 0x80" "v s' 1 = 258"
    by auto
  have "v s' 1 = 0x02"
    using s'(3) by simp
  with s' a show ?thesis
    by blast
qed

subsection \<open>Fx29: font glyph address\<close>

text \<open>
  Claim C9: Fx29 sets \<open>I\<close> to \<open>(Vx mod 16) * 5\<close>, inside the font region
  0x000 to 0x04F for every value of \<open>Vx\<close>.

  The handler is \<^verbatim>\<open>this.i = this.v[x] * 5\<close>, with no mask.  With \<open>V2 = 0x10\<close> it
  sets \<open>I = 0x50\<close>, not 0, and that is outside the font region.
\<close>

theorem C9_counterexample:
  "i (projr (executeInstruction (init\<lparr>v := (v init)(2 := 0x10)\<rparr>) 0 0xf229)) = 0x50
   \<and> (unat (0x10 :: 8 word) mod 16) * 5 = 0"
  by (simp add: executeInstruction_def exec_F_def Let_def)

text \<open>
  Claim C9, amended: Fx29 sets \<open>I\<close> to \<open>Vx * 5\<close>.  This is \<open>(Vx mod 16) * 5\<close>
  exactly when \<open>Vx < 16\<close>, and it lies in the font region 0x000 to 0x04F exactly
  when \<open>Vx < 16\<close>.
\<close>

theorem C9_font_address:
  assumes "opcode AND 0xf000 = 0xf000" and "opcode AND 0xff = 0x29"
    and "x = drop_bit 8 (opcode AND 0x0f00)"
  shows "\<exists>s'. executeInstruction s rnd opcode = Inr s'
     \<and> i s' = unat (v s x) * 5
     \<and> (i s' = (unat (v s x) mod 16) * 5) = (unat (v s x) < 16)
     \<and> (i s' \<le> 0x04f) = (unat (v s x) < 16)"
  using assms
  by (auto simp add: executeInstruction_def exec_F_def Let_def)

theorem C9_font_address_witness:
  "(0xf229::nat) AND 0xf000 = 0xf000 \<and> (0xf229::nat) AND 0xff = 0x29
   \<and> (2::nat) = drop_bit 8 (0xf229 AND 0x0f00)
   \<and> (\<exists>s'. executeInstruction (init\<lparr>v := (v init)(2 := 0x0a)\<rparr>) 0 0xf229 = Inr s'
         \<and> i s' = 50)"
proof -
  have a: "(0xf229::nat) AND 0xf000 = 0xf000" "(0xf229::nat) AND 0xff = 0x29"
    "(2::nat) = drop_bit 8 (0xf229 AND 0x0f00)"
    by simp_all
  from C9_font_address [OF a, of "init\<lparr>v := (v init)(2 := 0x0a)\<rparr>" 0]
  obtain s' where s': "executeInstruction (init\<lparr>v := (v init)(2 := 0x0a)\<rparr>) 0 0xf229 = Inr s'"
    "i s' = unat ((0x0a :: 8 word)) * 5"
    by auto
  have "i s' = 50"
    using s'(2) by simp
  with s' a show ?thesis
    by blast
qed

subsection \<open>Fx55 and Fx65: block store and block load\<close>

lemma store_registers_memory:
  "memory (store_registers s x r) a =
     (if i s + r \<le> a \<and> a \<le> i s + x \<and> a < 4096 then v s (a - i s) else memory s a)"
proof (induction s x r rule: store_registers.induct)
  case (1 s x r)
  show ?case
  proof (cases "r \<le> x")
    case True
    from 1 [OF True] show ?thesis
      by (subst store_registers.simps) (auto simp: True mem_write_def)
  next
    case False
    then show ?thesis by (subst store_registers.simps) auto
  qed
qed

lemma load_registers_v:
  "v (load_registers s x r) k =
     (if r \<le> k \<and> k \<le> x then mem_read (memory s) (i s + k) else v s k)"
proof (induction s x r rule: load_registers.induct)
  case (1 s x r)
  show ?case
  proof (cases "r \<le> x")
    case True
    from 1 [OF True] show ?thesis
      by (subst load_registers.simps) (auto simp: True)
  next
    case False
    then show ?thesis by (subst load_registers.simps) auto
  qed
qed

lemma store_registers_others:
  "v (store_registers s x r) = v s" "i (store_registers s x r) = i s"
  by (subst store_registers_frame, simp)+

lemma load_registers_others:
  "memory (load_registers s x r) = memory s" "i (load_registers s x r) = i s"
  by (subst load_registers_frame, simp)+

text \<open>
  Claim C10: for every register index \<open>X\<close> and every value of \<open>I\<close>, Fx55 writes
  only the memory cells \<open>I\<close> to \<open>I + X\<close> and leaves all other memory, all registers
  and \<open>I\<close> unchanged; Fx65 writes only the registers \<open>V0\<close> to \<open>VX\<close> and leaves the
  registers above \<open>X\<close>, all memory and \<open>I\<close> unchanged.  The theorem also says
  what is written: cell \<open>I + k\<close> receives \<open>Vk\<close> when it exists (below 4096), and
  \<open>Vk\<close> receives cell \<open>I + k\<close>, or 0 when there is no such cell.
\<close>

theorem C10_block_transfer_frame:
  assumes "opcode AND 0xf000 = 0xf000" and "x = drop_bit 8 (opcode AND 0x0f00)"
  shows "(opcode AND 0xff = 0x55 \<longrightarrow>
            (\<exists>s'. executeInstruction s rnd opcode = Inr s'
               \<and> (\<forall>a. \<not> (i s \<le> a \<and> a \<le> i s + x) \<longrightarrow> memory s' a = memory s a)
               \<and> (\<forall>a. i s \<le> a \<and> a \<le> i s + x \<and> a < 4096 \<longrightarrow> memory s' a = v s (a - i s))
               \<and> v s' = v s \<and> i s' = i s))
       \<and> (opcode AND 0xff = 0x65 \<longrightarrow>
            (\<exists>s'. executeInstruction s rnd opcode = Inr s'
               \<and> (\<forall>k. x < k \<longrightarrow> v s' k = v s k)
               \<and> (\<forall>k. k \<le> x \<longrightarrow> v s' k = mem_read (memory s) (i s + k))
               \<and> memory s' = memory s \<and> i s' = i s))"
proof -
  let ?s = "s\<lparr>pc := js_add (pc s) 2\<rparr>"
  have e: "executeInstruction s rnd opcode = Inr (exec_F ?s x opcode)"
    using assms by (simp only: executeInstruction_F)
  have st: "opcode AND 0xff = 0x55 \<Longrightarrow> exec_F ?s x opcode = store_registers ?s x 0"
    by (simp add: exec_F_def)
  have ld: "opcode AND 0xff = 0x65 \<Longrightarrow> exec_F ?s x opcode = load_registers ?s x 0"
    by (simp add: exec_F_def)
  show ?thesis
    by (auto simp: e st ld store_registers_memory store_registers_others
          load_registers_v load_registers_others)
qed

theorem C10_block_transfer_frame_witness:
  "(0xf255::nat) AND 0xf000 = 0xf000 \<and> (2::nat) = drop_bit 8 (0xf255 AND 0x0f00)
   \<and> (0xf255::nat) AND 0xff = 0x55
   \<and> (\<exists>s'. executeInstruction (init\<lparr>i := 0x300, v := (v init)(0 := 7, 1 := 8, 2 := 9)\<rparr>) 0 0xf255 = Inr s'
         \<and> memory s' 0x2ff = 0 \<and> memory s' 0x300 = 7 \<and> memory s' 0x302 = 9
         \<and> memory s' 0x303 = 0 \<and> v s' 3 = 0 \<and> i s' = 0x300)
   \<and> (0xf265::nat) AND 0xf000 = 0xf000 \<and> (2::nat) = drop_bit 8 (0xf265 AND 0x0f00)
   \<and> (0xf265::nat) AND 0xff = 0x65
   \<and> (\<exists>s'. executeInstruction
           (init\<lparr>i := 0x300, v := (\<lambda>r. 5), memory := (memory init)(0x300 := 7, 0x302 := 9)\<rparr>) 0 0xf265 = Inr s'
         \<and> v s' 0 = 7 \<and> v s' 1 = 0 \<and> v s' 2 = 9 \<and> v s' 3 = 5
         \<and> memory s' 0x300 = 7 \<and> i s' = 0x300)"
proof -
  let ?s1 = "init\<lparr>i := 0x300, v := (v init)(0 := 7, 1 := 8, 2 := 9)\<rparr>"
  let ?s2 = "init\<lparr>i := 0x300, v := (\<lambda>r. 5), memory := (memory init)(0x300 := 7, 0x302 := 9)\<rparr>"
  have a: "(0xf255::nat) AND 0xf000 = 0xf000" "(2::nat) = drop_bit 8 (0xf255 AND 0x0f00)"
    and a': "(0xf255::nat) AND 0xff = 0x55"
    and b: "(0xf265::nat) AND 0xf000 = 0xf000" "(2::nat) = drop_bit 8 (0xf265 AND 0x0f00)"
    and b': "(0xf265::nat) AND 0xff = 0x65"
    by simp_all
  from C10_block_transfer_frame [OF a, of ?s1 0] a'
  obtain s1 where s1: "executeInstruction ?s1 0 0xf255 = Inr s1"
    "\<forall>a. \<not> (i ?s1 \<le> a \<and> a \<le> i ?s1 + 2) \<longrightarrow> memory s1 a = memory ?s1 a"
    "\<forall>a. i ?s1 \<le> a \<and> a \<le> i ?s1 + 2 \<and> a < 4096 \<longrightarrow> memory s1 a = v ?s1 (a - i ?s1)"
    "v s1 = v ?s1" "i s1 = i ?s1"
    by blast
  from C10_block_transfer_frame [OF b, of ?s2 0] b'
  obtain s2 where s2: "executeInstruction ?s2 0 0xf265 = Inr s2"
    "\<forall>k. 2 < k \<longrightarrow> v s2 k = v ?s2 k"
    "\<forall>k. k \<le> 2 \<longrightarrow> v s2 k = mem_read (memory ?s2) (i ?s2 + k)"
    "memory s2 = memory ?s2" "i s2 = i ?s2"
    by blast
  have m: "memory s1 0x2ff = 0" "memory s1 0x303 = 0"
    using s1(2) [rule_format, of "0x2ff"] s1(2) [rule_format, of "0x303"]
    by (simp_all add: init_def)
  have m': "memory s1 0x300 = 7" "memory s1 0x302 = 9"
    using s1(3) [rule_format, of "0x300"] s1(3) [rule_format, of "0x302"]
    by (simp_all add: init_def)
  have r1: "v s1 3 = 0" "i s1 = 0x300"
    using s1(4,5) by (simp_all add: init_def)
  have r2: "v s2 0 = 7" "v s2 1 = 0" "v s2 2 = 9"
    using s2(3) [rule_format, of 0] s2(3) [rule_format, of 1] s2(3) [rule_format, of 2]
    by (simp_all add: init_def mem_read_def)
  have r3: "v s2 3 = 5" "memory s2 0x300 = 7" "i s2 = 0x300"
    using s2(2) [rule_format, of 3] s2(4,5)
    by (simp_all add: init_def)
  show ?thesis
    using a a' b b' s1(1) s2(1) m m' r1 r2 r3 by blast
qed

section \<open>The cycle\<close>

lemma cycle_loop_paused: "paused s \<Longrightarrow> cycle_loop s rnd k = Inr s"
proof (induction s rnd k rule: cycle_loop.induct)
  case (1 s rnd k)
  show ?case
  proof (cases "k < speed s")
    case True
    with 1 show ?thesis
      by (subst cycle_loop.simps) simp
  next
    case False
    then show ?thesis
      by (subst cycle_loop.simps) simp
  qed
qed

lemma cycle_loop_returns: "\<exists>s1. cycle_loop s rnd k = Inr s1"
proof (induction s rnd k rule: cycle_loop.induct)
  case (1 s rnd k)
  show ?case
  proof (cases "k < speed s \<and> \<not> paused s")
    case True
    obtain s' where s': "executeInstruction s (rnd k) (fetch s) = Inr s'"
      using executeInstruction_never_throws by blast
    from True s' have "cycle_loop s rnd k = cycle_loop s' rnd (Suc k)"
      by (subst cycle_loop.simps) simp
    with 1(1) [of s'] True s' show ?thesis
      by simp
  next
    case False
    show ?thesis
    proof (cases "k < speed s")
      case True
      with False have "paused s" by simp
      then show ?thesis
        by (simp add: cycle_loop_paused)
    next
      case False
      then show ?thesis
        by (subst cycle_loop.simps) simp
    qed
  qed
qed

lemma updateTimers_delayTimer:
  "delayTimer (updateTimers s) = (if delayTimer s > 0 then delayTimer s - 1 else delayTimer s)"
  by (simp add: updateTimers_def Let_def)

lemma updateTimers_soundTimer:
  "soundTimer (updateTimers s) = (if soundTimer s > 0 then soundTimer s - 1 else soundTimer s)"
  by (simp add: updateTimers_def Let_def)

lemma updateTimers_paused: "paused (updateTimers s) = paused s"
  by (simp add: updateTimers_def Let_def)

subsection \<open>No instruction but Fx15 and Fx18 writes a timer\<close>

lemma exec_8_timers:
  "delayTimer (exec_8 s x y opcode) = delayTimer s"
  "soundTimer (exec_8 s x y opcode) = soundTimer s"
  by (simp_all add: exec_8_def Let_def)

lemma exec_D_timers:
  "delayTimer (exec_D s x y opcode) = delayTimer s"
  "soundTimer (exec_D s x y opcode) = soundTimer s"
  unfolding exec_D_def by (subst draw_rows_frame, simp)+

lemma exec_E_timers:
  "delayTimer (exec_E s x opcode) = delayTimer s"
  "soundTimer (exec_E s x opcode) = soundTimer s"
  by (simp_all add: exec_E_def Let_def)

lemma store_registers_timers:
  "delayTimer (store_registers s x r) = delayTimer s"
  "soundTimer (store_registers s x r) = soundTimer s"
  by (subst store_registers_frame, simp)+

lemma load_registers_timers:
  "delayTimer (load_registers s x r) = delayTimer s"
  "soundTimer (load_registers s x r) = soundTimer s"
  by (subst load_registers_frame, simp)+

lemma exec_F_timers:
  "delayTimer (exec_F s x opcode) = (if opcode AND 0xff = 0x15 then uint (v s x) else delayTimer s)"
  "soundTimer (exec_F s x opcode) = (if opcode AND 0xff = 0x18 then uint (v s x) else soundTimer s)"
  by (simp_all add: exec_F_def Let_def store_registers_timers load_registers_timers)

lemma executeInstruction_timers:
  assumes "executeInstruction s rnd opcode = Inr s'"
  shows "delayTimer s' =
      (if sets_timer 0x15 opcode then uint (v s (drop_bit 8 (opcode AND 0x0f00)))
       else delayTimer s)"
    and "soundTimer s' =
      (if sets_timer 0x18 opcode then uint (v s (drop_bit 8 (opcode AND 0x0f00)))
       else soundTimer s)"
  using assms
  by (auto simp: executeInstruction_def Let_def sets_timer_def exec_8_timers exec_D_timers
        exec_E_timers exec_F_timers split: if_splits prod.splits)

lemma executed_paused: "paused s \<Longrightarrow> executed s rnd k = []"
proof (induction s rnd k rule: executed.induct)
  case (1 s rnd k)
  show ?case
  proof (cases "k < speed s")
    case True
    with 1 show ?thesis
      by (subst executed.simps) simp
  next
    case False
    then show ?thesis
      by (subst executed.simps) simp
  qed
qed

lemma cycle_loop_timers:
  "cycle_loop s rnd k = Inr s1 \<Longrightarrow>
   delayTimer s1 = timer_after 0x15 (delayTimer s) (executed s rnd k)
   \<and> soundTimer s1 = timer_after 0x18 (soundTimer s) (executed s rnd k)"
proof (induction s rnd k rule: cycle_loop.induct)
  case (1 s rnd k)
  show ?case
  proof (cases "k < speed s \<and> \<not> paused s")
    case True
    obtain s' where s': "executeInstruction s (rnd k) (fetch s) = Inr s'"
      using executeInstruction_never_throws by blast
    from True s' have loop: "cycle_loop s rnd k = cycle_loop s' rnd (Suc k)"
      by (subst cycle_loop.simps) simp
    from True s' have trace: "executed s rnd k = (s, fetch s) # executed s' rnd (Suc k)"
      by (subst executed.simps) simp
    from 1(3) loop have "cycle_loop s' rnd (Suc k) = Inr s1"
      by simp
    with 1(1) [of s'] True s'
    have "delayTimer s1 = timer_after 0x15 (delayTimer s') (executed s' rnd (Suc k))
        \<and> soundTimer s1 = timer_after 0x18 (soundTimer s') (executed s' rnd (Suc k))"
      by simp
    then show ?thesis
      by (simp only: trace timer_after.simps executeInstruction_timers [OF s'])
  next
    case False
    show ?thesis
    proof (cases "k < speed s")
      case True
      with False have p: "paused s" by simp
      with 1(3) have "s1 = s"
        by (simp add: cycle_loop_paused)
      then show ?thesis
        by (simp add: executed_paused [OF p])
    next
      case False
      with 1(3) have "s1 = s"
        by (subst (asm) cycle_loop.simps) simp
      moreover from False have "executed s rnd k = []"
        by (subst executed.simps) simp
      ultimately show ?thesis
        by simp
    qed
  qed
qed

lemma timer_after_nonneg: "0 \<le> d \<Longrightarrow> 0 \<le> timer_after kk d tr"
proof (induction tr arbitrary: d)
  case Nil
  then show ?case by simp
next
  case (Cons a tr)
  obtain t opcode where a: "a = (t, opcode)" by (cases a)
  let ?d = "if sets_timer kk opcode then uint (v t (drop_bit 8 (opcode AND 0x0f00))) else d"
  from Cons.prems have "0 \<le> ?d" by simp
  then have "0 \<le> timer_after kk ?d tr" by (rule Cons.IH)
  then show ?case
    by (simp only: a timer_after.simps)
qed

lemma timer_after_unset:
  "\<forall>t opcode. (t, opcode) \<in> set tr \<longrightarrow> \<not> sets_timer kk opcode \<Longrightarrow> timer_after kk d tr = d"
proof (induction tr arbitrary: d)
  case Nil
  show ?case by simp
next
  case (Cons a tr)
  obtain t opcode where a: "a = (t, opcode)" by (cases a)
  from Cons.prems a have "\<not> sets_timer kk opcode" by simp
  moreover from Cons.prems have "timer_after kk d tr = d"
    by (intro Cons.IH) simp
  ultimately show ?case
    by (simp only: a timer_after.simps if_False)
qed

text \<open>
  Claim C2: every invocation of \<^verbatim>\<open>cycle\<close> decrements the delay timer and the
  sound timer by 1, each floored at 0, exactly once, also when the paused flag is
  set.

  The code guards the decrement: \<^verbatim>\<open>if (!this.paused) this.updateTimers()\<close>,
  under the comment "update timers when not paused".  A paused machine with delay
  timer 5 and sound timer 3 leaves \<^verbatim>\<open>cycle\<close> with both unchanged.
\<close>

theorem C2_counterexample:
  "delayTimer (projr (cycle (init\<lparr>paused := True, delayTimer := 5, soundTimer := 3\<rparr>) no_random)) = 5
   \<and> soundTimer (projr (cycle (init\<lparr>paused := True, delayTimer := 5, soundTimer := 3\<rparr>) no_random)) = 3"
  by (simp add: cycle_def cycle_loop_paused)

text \<open>
  Claim C2, amended: every invocation of \<^verbatim>\<open>cycle\<close> returns.  Its instruction
  loop never counts a timer down: an instruction writes the delay timer only if
  it is Fx15 and the sound timer only if it is Fx18, and each of these sets it to
  \<open>Vx\<close>; so after a loop that executes no Fx15 (no Fx18) the delay (sound) timer
  is the one \<^verbatim>\<open>cycle\<close> was called with.  When the paused flag is clear after the
  loop, \<^verbatim>\<open>cycle\<close> then decrements each timer exactly once, by 1 if it is
  positive and not at all otherwise, so a timer that is not negative never
  becomes negative; when the flag is set after the loop, both timers are as the
  loop left them.  A machine that is paused when \<^verbatim>\<open>cycle\<close> is called is
  returned unchanged.
\<close>

theorem C2_timers_once_per_cycle:
  "\<exists>s1 s'. cycle_loop s rnd 0 = Inr s1 \<and> cycle s rnd = Inr s'
     \<and> delayTimer s1 = timer_after 0x15 (delayTimer s) (executed s rnd 0)
     \<and> soundTimer s1 = timer_after 0x18 (soundTimer s) (executed s rnd 0)
     \<and> ((\<forall>t opcode. (t, opcode) \<in> set (executed s rnd 0) \<longrightarrow> \<not> sets_timer 0x15 opcode)
          \<longrightarrow> delayTimer s1 = delayTimer s)
     \<and> ((\<forall>t opcode. (t, opcode) \<in> set (executed s rnd 0) \<longrightarrow> \<not> sets_timer 0x18 opcode)
          \<longrightarrow> soundTimer s1 = soundTimer s)
     \<and> delayTimer s' =
         (if paused s1 then delayTimer s1
          else if delayTimer s1 > 0 then delayTimer s1 - 1 else delayTimer s1)
     \<and> soundTimer s' =
         (if paused s1 then soundTimer s1
          else if soundTimer s1 > 0 then soundTimer s1 - 1 else soundTimer s1)
     \<and> paused s' = paused s1
     \<and> (0 \<le> delayTimer s \<longrightarrow> 0 \<le> delayTimer s1 \<and> 0 \<le> delayTimer s')
     \<and> (0 \<le> soundTimer s \<longrightarrow> 0 \<le> soundTimer s1 \<and> 0 \<le> soundTimer s')
     \<and> (paused s \<longrightarrow> s1 = s \<and> s' = s)"
proof -
  obtain s1 where s1: "cycle_loop s rnd 0 = Inr s1"
    using cycle_loop_returns by blast
  let ?s' = "if \<not> paused s1 then updateTimers s1 else s1"
  have c: "cycle s rnd = Inr ?s'"
    by (simp add: cycle_def s1)
  have d: "delayTimer s1 = timer_after 0x15 (delayTimer s) (executed s rnd 0)"
    and b: "soundTimer s1 = timer_after 0x18 (soundTimer s) (executed s rnd 0)"
    using cycle_loop_timers [OF s1] by simp_all
  have d0: "delayTimer s1 = delayTimer s"
    if "\<forall>t opcode. (t, opcode) \<in> set (executed s rnd 0) \<longrightarrow> \<not> sets_timer 0x15 opcode"
    using that by (simp only: d) (rule timer_after_unset, blast)
  have b0: "soundTimer s1 = soundTimer s"
    if "\<forall>t opcode. (t, opcode) \<in> set (executed s rnd 0) \<longrightarrow> \<not> sets_timer 0x18 opcode"
    using that by (simp only: b) (rule timer_after_unset, blast)
  have d': "delayTimer ?s' =
      (if paused s1 then delayTimer s1
       else if delayTimer s1 > 0 then delayTimer s1 - 1 else delayTimer s1)"
    by (simp add: updateTimers_delayTimer)
  have b': "soundTimer ?s' =
      (if paused s1 then soundTimer s1
       else if soundTimer s1 > 0 then soundTimer s1 - 1 else soundTimer s1)"
    by (simp add: updateTimers_soundTimer)
  have p': "paused ?s' = paused s1"
    by (simp add: updateTimers_paused)
  have dn: "0 \<le> delayTimer s1 \<and> 0 \<le> delayTimer ?s'" if "0 \<le> delayTimer s"
  proof -
    from that have "0 \<le> delayTimer s1"
      by (simp only: d timer_after_nonneg)
    then show ?thesis
      by (simp add: updateTimers_delayTimer)
  qed
  have bn: "0 \<le> soundTimer s1 \<and> 0 \<le> soundTimer ?s'" if "0 \<le> soundTimer s"
  proof -
    from that have "0 \<le> soundTimer s1"
      by (simp only: b timer_after_nonneg)
    then show ?thesis
      by (simp add: updateTimers_soundTimer)
  qed
  have ps: "s1 = s \<and> ?s' = s" if "paused s"
    using that s1 by (simp add: cycle_loop_paused)
  from s1 c d b d0 b0 d' b' p' dn bn ps show ?thesis
    by blast
qed

theorem C2_timers_once_per_cycle_witness:
  "paused (init\<lparr>paused := True, delayTimer := 5, soundTimer := 3\<rparr>)
   \<and> cycle (init\<lparr>paused := True, delayTimer := 5, soundTimer := 3\<rparr>) no_random
       = Inr (init\<lparr>paused := True, delayTimer := 5, soundTimer := 3\<rparr>)
   \<and> 0 \<le> delayTimer (init\<lparr>delayTimer := 200\<rparr>) \<and> 0 \<le> soundTimer (init\<lparr>delayTimer := 200\<rparr>)
   \<and> (\<exists>s'. cycle (init\<lparr>delayTimer := 200\<rparr>) no_random = Inr s'
         \<and> delayTimer s' = 199 \<and> soundTimer s' = 0 \<and> \<not> paused s')"
proof -
  let ?p = "init\<lparr>paused := True, delayTimer := 5, soundTimer := 3\<rparr>"
  let ?u = "init\<lparr>delayTimer := 200\<rparr>"
  have 1: "paused ?p" and 2: "0 \<le> delayTimer ?u" "0 \<le> soundTimer ?u"
    by (simp_all add: init_def)
  from C2_timers_once_per_cycle [of ?p no_random] 1
  have 3: "cycle ?p no_random = Inr ?p"
    by auto
  from C2_timers_once_per_cycle [of ?u no_random]
  obtain s1 s' where u: "cycle_loop ?u no_random 0 = Inr s1" "cycle ?u no_random = Inr s'"
    "delayTimer s1 = timer_after 0x15 (delayTimer ?u) (executed ?u no_random 0)"
    "soundTimer s1 = timer_after 0x18 (soundTimer ?u) (executed ?u no_random 0)"
    "delayTimer s' =
       (if paused s1 then delayTimer s1
        else if delayTimer s1 > 0 then delayTimer s1 - 1 else delayTimer s1)"
    "soundTimer s' =
       (if paused s1 then soundTimer s1
        else if soundTimer s1 > 0 then soundTimer s1 - 1 else soundTimer s1)"
    "paused s' = paused s1"
    by blast
  have "cycle_loop ?u no_random 0 = Inr (?u\<lparr>pc := Num 0x214\<rparr>)"
    by (simp add: cycle_loop.simps fetch_def executeInstruction_def init_def mem_read_def)
  with u(1) have "\<not> paused s1"
    by (auto simp: init_def)
  moreover have "timer_after 0x15 (delayTimer ?u) (executed ?u no_random 0) = 200"
    by (simp add: executed.simps fetch_def executeInstruction_def init_def mem_read_def
        sets_timer_def)
  moreover have "timer_after 0x18 (soundTimer ?u) (executed ?u no_random 0) = 0"
    by (simp add: executed.simps fetch_def executeInstruction_def init_def mem_read_def
        sets_timer_def)
  ultimately have "delayTimer s' = 199" "soundTimer s' = 0" "\<not> paused s'"
    using u(3-7) by simp_all
  with u(2) 1 2 3 show ?thesis
    by blast
qed

subsection \<open>Fx0A: wait for a key\<close>

lemma executeInstruction_wait:
  assumes "opcode AND 0xf000 = 0xf000" and "opcode AND 0xff = 0x0a"
    and "x = drop_bit 8 (opcode AND 0x0f00)"
  shows "executeInstruction s rnd opcode =
     Inr (s\<lparr>pc := js_add (pc s) 2, paused := True, onNextKeyPress := Some x\<rparr>)"
  using assms by (simp add: executeInstruction_def exec_F_def)

text \<open>
  What holds of the claim below: Fx0A pauses the machine, a paused machine
  executes nothing in \<^verbatim>\<open>cycle\<close> (\<open>cycle_loop_paused\<close>), and the next key press
  that \<^verbatim>\<open>keymap\<close> maps to a key other than 0 stores the key in \<open>Vx\<close>, clears the
  pause flag and removes the callback, so that no later key press writes a
  register or the flag.
\<close>

lemma wait_for_key_nonzero:
  assumes "opcode AND 0xf000 = 0xf000" and "opcode AND 0xff = 0x0a"
    and "x = drop_bit 8 (opcode AND 0x0f00)"
    and "keymap w = Some k" and "k \<noteq> 0"
  shows "\<exists>s1. executeInstruction s rnd opcode = Inr s1 \<and> paused s1
     \<and> v (onKeyDown s1 w) = (v s)(x := of_nat k)
     \<and> \<not> paused (onKeyDown s1 w)
     \<and> onNextKeyPress (onKeyDown s1 w) = None
     \<and> v (onKeyDown (onKeyDown s1 w) w') = v (onKeyDown s1 w)
     \<and> \<not> paused (onKeyDown (onKeyDown s1 w) w')"
  using assms
  by (simp add: executeInstruction_wait onKeyDown_def Let_def)

text \<open>
  Claim C4: after Fx0A the pause flag is set and no instruction is fetched or
  executed; then, for every logical key \<open>k\<close> in 0..15, if \<open>k\<close> is the next key
  pressed, the one-shot callback stores \<open>k\<close> in \<open>Vx\<close>, clears the pause flag and
  runs exactly once; execution resumes with the next \<^verbatim>\<open>cycle\<close>.

  For \<open>k = 0\<close> the code does not do this.  \<^verbatim>\<open>onKeyDown\<close> tests
  \<^verbatim>\<open>this.onNextKeyPress !== null && key\<close>, and the logical key 0 (the X key,
  \<^verbatim>\<open>event.which = 88\<close>) is falsy: the callback is not called, the register is not
  written, the machine stays paused and the callback stays installed.
\<close>

theorem C4_key_0_does_not_resume:
  "\<exists>s1. executeInstruction s rnd 0xf10a = Inr s1
     \<and> paused s1 \<and> onNextKeyPress s1 = Some 1
     \<and> keymap 88 = Some 0
     \<and> paused (onKeyDown s1 88)
     \<and> v (onKeyDown s1 88) = v s
     \<and> onNextKeyPress (onKeyDown s1 88) = Some 1
     \<and> cycle (onKeyDown s1 88) rnd' = Inr (onKeyDown s1 88)"
proof -
  have e: "executeInstruction s rnd 0xf10a =
      Inr (s\<lparr>pc := js_add (pc s) 2, paused := True, onNextKeyPress := Some 1\<rparr>)"
    by (rule executeInstruction_wait) simp_all
  show ?thesis
    by (simp add: e onKeyDown_def keymap_def cycle_def cycle_loop_paused)
qed

section \<open>Drawing\<close>

subsection \<open>The pixels a sprite touches\<close>

lemma setPixel_pixel_index:
  "setPixel d x y =
     (d(pixel_index x y := Some (xor1 (d (pixel_index x y)))), xor1 (d (pixel_index x y)) = 0)"
  by (simp add: setPixel_def pixel_index_def Let_def)

lemma toggle_fields:
  "memory (toggle p s) = memory s" "i (toggle p s) = i s"
  "r \<noteq> 0xf \<Longrightarrow> v (toggle p s) r = v s r"
  by (simp_all add: toggle_def)

lemma fold_toggle_fields:
  "memory (fold toggle ps s) = memory s" "i (fold toggle ps s) = i s"
  "r \<noteq> 0xf \<Longrightarrow> v (fold toggle ps s) r = v s r"
  by (induction ps arbitrary: s) (simp_all add: toggle_fields)

lemma draw_cols_step:
  "col < 8 \<Longrightarrow>
   draw_cols s x y row sprite col =
     draw_cols
       (if sprite AND 0x80 > 0
        then toggle (pixel_index (uint (v s x) + int col) (uint (v s y) + int row)) s else s)
       x y row (push_bit 1 sprite) (Suc col)"
  by (subst draw_cols.simps) (simp add: setPixel_pixel_index toggle_def)

lemma draw_cols_fold:
  assumes "x \<noteq> 0xf" and "y \<noteq> 0xf"
  shows "draw_cols s x y row sprite col =
     fold toggle (row_pixels (uint (v s x)) (uint (v s y)) row sprite col) s"
proof (induction "8 - col" arbitrary: s sprite col)
  case 0
  then have "\<not> col < 8" by simp
  then show ?case
    by (subst draw_cols.simps, subst row_pixels.simps) simp
next
  case (Suc n)
  then have True: "col < 8" and n: "n = 8 - Suc col" by simp_all
  let ?p = "pixel_index (uint (v s x) + int col) (uint (v s y) + int row)"
  let ?s = "if sprite AND 0x80 > 0 then toggle ?p s else s"
  have regs: "v ?s x = v s x" "v ?s y = v s y"
    using assms by (simp_all add: toggle_fields)
  have "draw_cols s x y row sprite col = draw_cols ?s x y row (push_bit 1 sprite) (Suc col)"
    using True by (rule draw_cols_step)
  also have "\<dots> =
      fold toggle (row_pixels (uint (v s x)) (uint (v s y)) row (push_bit 1 sprite) (Suc col)) ?s"
    using Suc(1) [OF n, of ?s "push_bit 1 sprite"] by (simp only: regs)
  also have "\<dots> = fold toggle (row_pixels (uint (v s x)) (uint (v s y)) row sprite col) s"
    by (subst (2) row_pixels.simps) (simp add: True)
  finally show ?case .
qed

lemma draw_rows_fold:
  assumes "x \<noteq> 0xf" and "y \<noteq> 0xf"
  shows "draw_rows s x y height row =
     fold toggle (sprite_pixels (memory s) (i s) (uint (v s x)) (uint (v s y)) height row) s"
  using assms
proof (induction s x y height row rule: draw_rows.induct)
  case (1 s x y height row)
  show ?case
  proof (cases "row < height")
    case True
    let ?ps = "row_pixels (uint (v s x)) (uint (v s y)) row (unat (mem_read (memory s) (i s + row))) 0"
    let ?s = "draw_cols s x y row (unat (mem_read (memory s) (i s + row))) 0"
    have c: "?s = fold toggle ?ps s"
      using 1(2,3) by (rule draw_cols_fold)
    have step: "draw_rows s x y height row = draw_rows ?s x y height (Suc row)"
      by (subst draw_rows.simps) (simp add: True)
    have "draw_rows ?s x y height (Suc row) =
        fold toggle (sprite_pixels (memory ?s) (i ?s) (uint (v ?s x)) (uint (v ?s y)) height (Suc row)) ?s"
      using 1(1) [OF True 1(2,3)] .
    also have "\<dots> = fold toggle (sprite_pixels (memory s) (i s) (uint (v s x)) (uint (v s y)) height (Suc row)) (fold toggle ?ps s)"
      using 1(2,3) by (simp add: c fold_toggle_fields)
    finally show ?thesis
      unfolding step
      by (subst sprite_pixels.simps) (simp add: True)
  next
    case False
    then show ?thesis
      by (subst draw_rows.simps, subst sprite_pixels.simps) simp
  qed
qed

lemma fold_toggle_display:
  "distinct ps \<Longrightarrow>
   display (fold toggle ps s) p =
     (if p \<in> set ps then Some (xor1 (display s p)) else display s p)"
proof (induction ps arbitrary: s)
  case Nil
  show ?case by simp
next
  case (Cons q ps)
  have d: "display (toggle q s) = (display s)(q := Some (xor1 (display s q)))"
    by (simp add: toggle_def)
  from Cons.prems have "q \<notin> set ps" "distinct ps" by simp_all
  with Cons.IH [of "toggle q s"] show ?case
    by (auto simp: d)
qed

lemma fold_toggle_flag:
  "distinct ps \<Longrightarrow>
   v (fold toggle ps s) =
     (if \<exists>p\<in>set ps. xor1 (display s p) = 0 then (v s)(0xf := 1) else v s)"
proof (induction ps arbitrary: s)
  case Nil
  show ?case by simp
next
  case (Cons q ps)
  have d: "display (toggle q s) = (display s)(q := Some (xor1 (display s q)))"
    by (simp add: toggle_def)
  have f: "v (toggle q s) = (if xor1 (display s q) = 0 then (v s)(0xf := 1) else v s)"
    by (simp add: toggle_def)
  from Cons.prems have q: "q \<notin> set ps" and "distinct ps" by simp_all
  then have "v (fold toggle ps (toggle q s)) =
      (if \<exists>p\<in>set ps. xor1 (display (toggle q s) p) = 0
       then (v (toggle q s))(0xf := 1) else v (toggle q s))"
    using Cons.IH by blast
  also have "(\<exists>p\<in>set ps. xor1 (display (toggle q s) p) = 0) = (\<exists>p\<in>set ps. xor1 (display s p) = 0)"
    using q by (auto simp: d)
  finally show ?case
    by (auto simp: f)
qed

lemma sum_64_unique:
  fixes a a' b b' :: int
  assumes "\<bar>a - a'\<bar> < 64" and "a + b * 64 = a' + b' * 64"
  shows "a = a' \<and> b = b'"
proof -
  from assms(2) have e: "a - a' = 64 * (b' - b)" by (simp add: algebra_simps)
  have "b' = b"
  proof (rule ccontr)
    assume "b' \<noteq> b"
    then have "\<bar>b' - b\<bar> \<ge> 1" by simp
    then have "\<bar>64 * (b' - b)\<bar> \<ge> 64" by (simp add: abs_mult)
    with e assms(1) show False by simp
  qed
  with e show ?thesis by simp
qed

lemma pixel_index_inj:
  assumes "0 \<le> vx" "vx \<le> 255" "0 \<le> vy" "vy \<le> 255"
    and "c < 8" "c' < 8" "r < 16" "r' < 16"
    and "pixel_index (vx + int c) (vy + int r) = pixel_index (vx + int c') (vy + int r')"
  shows "c = c' \<and> r = r'"
proof -
  define wx where "wx = (\<lambda>x::int. if x > 64 then x - 64 else if x < 0 then x + 64 else x)"
  define wy where "wy = (\<lambda>y::int. if y > 32 then y - 32 else if y < 0 then y + 32 else y)"
  have p: "pixel_index x y = wx x + wy y * 64" for x y
    by (simp add: pixel_index_def cols_def rows_def wx_def wy_def)
  have near: "\<bar>wx (vx + int c) - wx (vx + int c')\<bar> < 64"
    using assms(1,2,5,6) by (auto simp: wx_def split: if_splits)
  from assms(9) have "wx (vx + int c) + wy (vy + int r) * 64 = wx (vx + int c') + wy (vy + int r') * 64"
    by (simp only: p)
  with near have e: "wx (vx + int c) = wx (vx + int c')" "wy (vy + int r) = wy (vy + int r')"
    using sum_64_unique by blast+
  have "c = c'"
    using e(1) assms(1,2,5,6) by (auto simp: wx_def split: if_splits)
  moreover have "r = r'"
    using e(2) assms(3,4,7,8) by (auto simp: wy_def split: if_splits)
  ultimately show ?thesis ..
qed

lemma row_pixels_mem:
  "p \<in> set (row_pixels vx vy row sprite col) \<Longrightarrow>
   \<exists>c. col \<le> c \<and> c < 8 \<and> p = pixel_index (vx + int c) (vy + int row)"
proof (induction "8 - col" arbitrary: sprite col)
  case 0
  then have "\<not> col < 8" by simp
  with 0(2) show ?case
    by (subst (asm) row_pixels.simps) simp
next
  case (Suc n)
  then have True: "col < 8" and n: "n = 8 - Suc col" by simp_all
  from Suc(3) True
  have "p = pixel_index (vx + int col) (vy + int row)
      \<or> p \<in> set (row_pixels vx vy row (push_bit 1 sprite) (Suc col))"
    by (subst (asm) row_pixels.simps) (auto split: if_splits)
  then show ?case
  proof
    assume "p = pixel_index (vx + int col) (vy + int row)"
    with True show ?thesis by blast
  next
    assume "p \<in> set (row_pixels vx vy row (push_bit 1 sprite) (Suc col))"
    from Suc(1) [OF n this] obtain c where "Suc col \<le> c" "c < 8"
      "p = pixel_index (vx + int c) (vy + int row)" by blast
    then have "col \<le> c \<and> c < 8 \<and> p = pixel_index (vx + int c) (vy + int row)" by simp
    then show ?thesis ..
  qed
qed

lemma row_pixels_distinct:
  assumes "0 \<le> vx" "vx \<le> 255" "0 \<le> vy" "vy \<le> 255" "row < 16"
  shows "distinct (row_pixels vx vy row sprite col)"
proof (induction "8 - col" arbitrary: sprite col)
  case 0
  then have "\<not> col < 8" by simp
  then show ?case
    by (subst row_pixels.simps) simp
next
  case (Suc n)
  then have True: "col < 8" and n: "n = 8 - Suc col" by simp_all
  let ?rest = "row_pixels vx vy row (push_bit 1 sprite) (Suc col)"
  have "pixel_index (vx + int col) (vy + int row) \<notin> set ?rest"
  proof
    assume "pixel_index (vx + int col) (vy + int row) \<in> set ?rest"
    from row_pixels_mem [OF this]
    obtain c where c: "Suc col \<le> c" "c < 8"
      "pixel_index (vx + int col) (vy + int row) = pixel_index (vx + int c) (vy + int row)"
      by blast
    from pixel_index_inj [OF assms(1-4) True c(2) assms(5) assms(5) c(3)] c(1)
    show False by simp
  qed
  moreover have "distinct ?rest"
    using Suc(1) [OF n] .
  ultimately show ?case
    using True by (subst row_pixels.simps) simp
qed

lemma sprite_pixels_mem:
  "p \<in> set (sprite_pixels m a vx vy height row) \<Longrightarrow>
   \<exists>c r. c < 8 \<and> row \<le> r \<and> r < height \<and> p = pixel_index (vx + int c) (vy + int r)"
proof (induction "height - row" arbitrary: row)
  case 0
  then have "\<not> row < height" by simp
  with 0(2) show ?case
    by (subst (asm) sprite_pixels.simps) simp
next
  case (Suc n)
  then have True: "row < height" and n: "n = height - Suc row" by simp_all
  from Suc(3) True
  have "p \<in> set (row_pixels vx vy row (unat (mem_read m (a + row))) 0)
      \<or> p \<in> set (sprite_pixels m a vx vy height (Suc row))"
    by (subst (asm) sprite_pixels.simps) simp
  then show ?case
  proof
    assume "p \<in> set (row_pixels vx vy row (unat (mem_read m (a + row))) 0)"
    from row_pixels_mem [OF this] obtain c where "c < 8"
      "p = pixel_index (vx + int c) (vy + int row)" by blast
    with True have "c < 8 \<and> row \<le> row \<and> row < height
        \<and> p = pixel_index (vx + int c) (vy + int row)" by simp
    then show ?thesis by blast
  next
    assume "p \<in> set (sprite_pixels m a vx vy height (Suc row))"
    from Suc(1) [OF n this] obtain c r where "c < 8" "Suc row \<le> r" "r < height"
      "p = pixel_index (vx + int c) (vy + int r)" by blast
    then have "c < 8 \<and> row \<le> r \<and> r < height \<and> p = pixel_index (vx + int c) (vy + int r)"
      by simp
    then show ?thesis by blast
  qed
qed

lemma sprite_pixels_distinct:
  assumes "0 \<le> vx" "vx \<le> 255" "0 \<le> vy" "vy \<le> 255" "height \<le> 16"
  shows "distinct (sprite_pixels m a vx vy height row)"
proof (induction "height - row" arbitrary: row)
  case 0
  then have "\<not> row < height" by simp
  then show ?case
    by (subst sprite_pixels.simps) simp
next
  case (Suc n)
  then have True: "row < height" and n: "n = height - Suc row" by simp_all
  let ?here = "row_pixels vx vy row (unat (mem_read m (a + row))) 0"
  let ?rest = "sprite_pixels m a vx vy height (Suc row)"
  from True assms(5) have row: "row < 16" by simp
  have "set ?here \<inter> set ?rest = {}"
  proof (rule ccontr)
    assume "set ?here \<inter> set ?rest \<noteq> {}"
    then obtain p where p: "p \<in> set ?here" "p \<in> set ?rest" by auto
    from row_pixels_mem [OF p(1)] obtain c where c: "c < 8"
      "p = pixel_index (vx + int c) (vy + int row)" by blast
    from sprite_pixels_mem [OF p(2)] obtain c' r where r: "c' < 8" "Suc row \<le> r" "r < height"
      "p = pixel_index (vx + int c') (vy + int r)" by blast
    from r(3) assms(5) have "r < 16" by simp
    from pixel_index_inj [OF assms(1-4) c(1) r(1) row this] c(2) r(4) r(2)
    show False by simp
  qed
  moreover have "distinct ?here"
    using assms(1-4) row by (rule row_pixels_distinct)
  moreover have "distinct ?rest"
    using Suc(1) [OF n] .
  ultimately show ?case
    using True by (subst sprite_pixels.simps) simp
qed

subsection \<open>One draw\<close>

lemma and_0xf_le:
  fixes n :: nat
  shows "n AND 0xf \<le> 16"
proof -
  have "(0xf::nat) = mask 4" by (simp add: mask_eq_exp_minus_1)
  then have "n AND 0xf = take_bit 4 n" by (simp add: take_bit_eq_mask)
  also have "\<dots> < 16" by (simp add: take_bit_eq_mod)
  finally show ?thesis by simp
qed

lemma touched_distinct: "distinct (touched s x y opcode)"
proof -
  have "0 \<le> uint (v s x)" "uint (v s x) \<le> 255" "0 \<le> uint (v s y)" "uint (v s y) \<le> 255"
    using uint_bounded [of "v s x"] uint_bounded [of "v s y"] by simp_all
  then show ?thesis
    unfolding touched_def using and_0xf_le by (rule sprite_pixels_distinct)
qed

lemma exec_D_fold:
  assumes "x \<noteq> 0xf" and "y \<noteq> 0xf"
  shows "exec_D s x y opcode = fold toggle (touched s x y opcode) (s\<lparr>v := (v s)(0xf := 0)\<rparr>)"
  using assms by (simp add: exec_D_def draw_rows_fold touched_def)

lemma exec_D_display:
  assumes "x \<noteq> 0xf" and "y \<noteq> 0xf"
  shows "display (exec_D s x y opcode) p =
     (if p \<in> set (touched s x y opcode) then Some (xor1 (display s p)) else display s p)"
  by (simp add: exec_D_fold [OF assms] fold_toggle_display [OF touched_distinct])

lemma exec_D_flag:
  assumes "x \<noteq> 0xf" and "y \<noteq> 0xf"
  shows "v (exec_D s x y opcode) 0xf =
     (if \<exists>p\<in>set (touched s x y opcode). xor1 (display s p) = 0 then 1 else 0)"
  by (simp add: exec_D_fold [OF assms] fold_toggle_flag [OF touched_distinct])

lemma exec_D_touched:
  assumes "x \<noteq> 0xf" and "y \<noteq> 0xf"
  shows "touched (exec_D s x y opcode) x y opcode = touched s x y opcode"
  using assms by (simp add: exec_D_fold [OF assms] touched_def fold_toggle_fields)

subsection \<open>Two draws\<close>

lemma xor1_changes: "Some (xor1 c) \<noteq> c"
proof (cases c)
  case None
  then show ?thesis by simp
next
  case (Some n)
  have "n XOR 1 \<noteq> n"
  proof
    assume "n XOR 1 = n"
    then have "even (n XOR 1) = even n" by simp
    then show False by (simp add: even_xor_iff)
  qed
  with Some show ?thesis by simp
qed

lemma xor1_twice_zero: "(xor1 (Some (xor1 c)) = 0) = (\<not> lit c)"
  by (cases c) (simp_all add: xor.assoc)

lemma lit_xor1_twice: "lit (Some (xor1 (Some (xor1 c)))) = lit c"
  by (cases c) (simp_all add: xor.assoc)

text \<open>
  A one-row sprite 0x80 drawn by D011 toggles the one pixel that \<^verbatim>\<open>setPixel\<close>
  finds for \<open>(V0, V1)\<close>.
\<close>

lemma draw_example:
  assumes "memory s = (memory init)(0x300 := 0x80)" "i s = 0x300"
  shows "executeInstruction s rnd 0xd011 =
     Inr (toggle (pixel_index (uint (v s 0)) (uint (v s 1)))
            (s\<lparr>pc := js_add (pc s) 2, v := (v s)(0xf := 0)\<rparr>))"
proof -
  let ?s = "s\<lparr>pc := js_add (pc s) 2\<rparr>"
  have e: "executeInstruction s rnd 0xd011 = Inr (exec_D ?s 0 1 0xd011)"
    using executeInstruction_D [of "0xd011" s rnd] by simp
  have t: "touched ?s 0 1 0xd011 = [pixel_index (uint (v s 0)) (uint (v s 1))]"
    using assms
    by (simp add: touched_def sprite_pixels.simps row_pixels.simps mem_read_def)
  have "exec_D ?s 0 1 0xd011 = fold toggle (touched ?s 0 1 0xd011) (?s\<lparr>v := (v ?s)(0xf := 0)\<rparr>)"
    by (rule exec_D_fold) simp_all
  then have "exec_D ?s 0 1 0xd011 =
      toggle (pixel_index (uint (v s 0)) (uint (v s 1))) (?s\<lparr>v := (v ?s)(0xf := 0)\<rparr>)"
    by (simp only: t fold_simps id_apply comp_apply)
  with e show ?thesis
    by simp
qed

lemma draw_example_origin:
  assumes "memory s = (memory init)(0x300 := 0x80)" "i s = 0x300" "v s 0 = 0" "v s 1 = 0"
  shows "executeInstruction s rnd 0xd011 =
     Inr (toggle 0 (s\<lparr>pc := js_add (pc s) 2, v := (v s)(0xf := 0)\<rparr>))"
  using draw_example [OF assms(1,2), of rnd] assms(3,4)
  by (simp add: pixel_index_def cols_def rows_def)

text \<open>
  Claim C8: for every display, every sprite and every in-bounds location, executing
  the same Dxyn twice in succession toggles every touched pixel back to its
  original state, and \<open>VF\<close> ends as 1 if any original pixel was lit.

  The first half holds, the second does not: the second draw erases exactly the
  pixels that the first one lit, which are the touched pixels that were unlit
  originally.  With pixel \<open>(0, 0)\<close> lit, \<open>V0 = V1 = 0\<close> and the one-row sprite
  0x80, D011 twice restores the pixel and leaves \<open>VF = 0\<close>.
\<close>

theorem C8_counterexample:
  "lit (display (init\<lparr>display := (display init)(0 := Some 1), i := 0x300,
                      memory := (memory init)(0x300 := 0x80)\<rparr>) 0)
   \<and> v (projr (executeInstruction (projr (executeInstruction
         (init\<lparr>display := (display init)(0 := Some 1), i := 0x300,
               memory := (memory init)(0x300 := 0x80)\<rparr>) 0 0xd011)) 0 0xd011)) 0xf = 0"
proof -
  let ?s = "init\<lparr>display := (display init)(0 := Some 1), i := 0x300,
                 memory := (memory init)(0x300 := 0x80)\<rparr>"
  let ?s1 = "toggle 0 (?s\<lparr>pc := js_add (pc ?s) 2, v := (v ?s)(0xf := 0)\<rparr>)"
  have 1: "executeInstruction ?s 0 0xd011 = Inr ?s1"
    by (rule draw_example_origin) (simp_all add: init_def)
  have 2: "executeInstruction ?s1 0 0xd011 =
      Inr (toggle 0 (?s1\<lparr>pc := js_add (pc ?s1) 2, v := (v ?s1)(0xf := 0)\<rparr>))"
    by (rule draw_example_origin) (simp_all add: toggle_def init_def)
  show ?thesis
    by (simp only: 1 2 sum.sel) (simp add: toggle_def init_def)
qed

text \<open>
  Claim C8, amended: for every display, every sprite and every location, with
  \<open>X\<close> and \<open>Y\<close> other than 0xF (so that the draw does not move its own
  coordinates), executing the same Dxyn twice in succession returns every pixel to
  its original lit or unlit state, and \<open>VF\<close> ends as 1 if and only if at least
  one pixel toggled by the first draw was unlit originally; it ends as 0
  otherwise, in particular when every touched pixel was lit.
\<close>

theorem C8_draw_twice:
  assumes "opcode AND 0xf000 = 0xd000"
    and "x = drop_bit 8 (opcode AND 0x0f00)" and "y = drop_bit 4 (opcode AND 0x00f0)"
    and "x \<noteq> 0xf" and "y \<noteq> 0xf"
  shows "\<exists>s1 s2. executeInstruction s rnd opcode = Inr s1
     \<and> executeInstruction s1 rnd' opcode = Inr s2
     \<and> (\<forall>p. lit (display s2 p) = lit (display s p))
     \<and> v s2 0xf = (if \<exists>p. display s1 p \<noteq> display s p \<and> \<not> lit (display s p) then 1 else 0)"
proof -
  let ?a = "s\<lparr>pc := js_add (pc s) 2\<rparr>"
  let ?s1 = "exec_D ?a x y opcode"
  let ?b = "?s1\<lparr>pc := js_add (pc ?s1) 2\<rparr>"
  let ?s2 = "exec_D ?b x y opcode"
  let ?T = "set (touched s x y opcode)"
  note xy = assms(4,5)
  have e1: "executeInstruction s rnd opcode = Inr ?s1"
    using assms(1-3) by (simp only: executeInstruction_D)
  have e2: "executeInstruction ?s1 rnd' opcode = Inr ?s2"
    using assms(1-3) by (simp only: executeInstruction_D)
  have ta: "touched ?a x y opcode = touched s x y opcode"
    by (simp add: touched_def)
  have "touched ?b x y opcode = touched ?s1 x y opcode"
    by (simp add: touched_def)
  then have tb: "touched ?b x y opcode = touched s x y opcode"
    by (simp only: exec_D_touched [OF xy] ta)
  have d1: "display ?s1 p = (if p \<in> ?T then Some (xor1 (display s p)) else display s p)" for p
    using exec_D_display [OF xy, of ?a opcode p] by (simp add: ta)
  have d2: "display ?s2 p = (if p \<in> ?T then Some (xor1 (display ?s1 p)) else display ?s1 p)" for p
    using exec_D_display [OF xy, of ?b opcode p] by (simp add: tb)
  have f2: "v ?s2 0xf = (if \<exists>p\<in>?T. xor1 (display ?s1 p) = 0 then 1 else 0)"
    using exec_D_flag [OF xy, of ?b opcode] by (simp add: tb)
  have restored: "lit (display ?s2 p) = lit (display s p)" for p
  proof (cases "p \<in> ?T")
    case True
    then show ?thesis
      by (simp only: d2 d1 if_True lit_xor1_twice)
  next
    case False
    then show ?thesis
      by (simp only: d2 d1 if_False)
  qed
  have changed: "(display ?s1 p \<noteq> display s p) = (p \<in> ?T)" for p
    by (simp add: d1 xor1_changes)
  have "(xor1 (display ?s1 p) = 0) = (\<not> lit (display s p))" if "p \<in> ?T" for p
    using that by (simp only: d1 if_True xor1_twice_zero)
  then have "(\<exists>p\<in>?T. xor1 (display ?s1 p) = 0) = (\<exists>p\<in>?T. \<not> lit (display s p))"
    by blast
  also have "\<dots> = (\<exists>p. display ?s1 p \<noteq> display s p \<and> \<not> lit (display s p))"
    by (auto simp only: changed)
  finally have flag: "v ?s2 0xf =
      (if \<exists>p. display ?s1 p \<noteq> display s p \<and> \<not> lit (display s p) then 1 else 0)"
    by (simp only: f2)
  from e1 e2 restored flag show ?thesis
    by blast
qed

theorem C8_draw_twice_witness:
  "(0xd011::nat) AND 0xf000 = 0xd000
   \<and> (0::nat) = drop_bit 8 (0xd011 AND 0x0f00) \<and> (1::nat) = drop_bit 4 (0xd011 AND 0x00f0)
   \<and> (0::nat) \<noteq> 0xf \<and> (1::nat) \<noteq> 0xf
   \<and> (\<exists>s1 s2.
         executeInstruction (init\<lparr>i := 0x300, memory := (memory init)(0x300 := 0x80)\<rparr>) 0 0xd011
           = Inr s1
         \<and> executeInstruction s1 0 0xd011 = Inr s2
         \<and> lit (display s1 0)
         \<and> (\<forall>p. lit (display s2 p) = lit (display init p))
         \<and> v s2 0xf = 1)"
proof -
  let ?s = "init\<lparr>i := 0x300, memory := (memory init)(0x300 := 0x80)\<rparr>"
  have a: "(0xd011::nat) AND 0xf000 = 0xd000"
    "(0::nat) = drop_bit 8 (0xd011 AND 0x0f00)" "(1::nat) = drop_bit 4 (0xd011 AND 0x00f0)"
    "(0::nat) \<noteq> 0xf" "(1::nat) \<noteq> 0xf"
    by simp_all
  from C8_draw_twice [OF a, of ?s 0 0]
  obtain s1 s2 where s: "executeInstruction ?s 0 0xd011 = Inr s1"
    "executeInstruction s1 0 0xd011 = Inr s2"
    "\<forall>p. lit (display s2 p) = lit (display ?s p)"
    "v s2 0xf = (if \<exists>p. display s1 p \<noteq> display ?s p \<and> \<not> lit (display ?s p) then 1 else 0)"
    by blast
  have "executeInstruction ?s 0 0xd011 =
      Inr (toggle 0 (?s\<lparr>pc := js_add (pc ?s) 2, v := (v ?s)(0xf := 0)\<rparr>))"
    by (rule draw_example_origin) (simp_all add: init_def)
  with s(1) have s1: "s1 = toggle 0 (?s\<lparr>pc := js_add (pc ?s) 2, v := (v ?s)(0xf := 0)\<rparr>)"
    by simp
  have l: "lit (display s1 0)" and "display s1 0 \<noteq> display ?s 0 \<and> \<not> lit (display ?s 0)"
    by (simp_all add: s1 toggle_def init_def)
  then have "\<exists>p. display s1 p \<noteq> display ?s p \<and> \<not> lit (display ?s p)"
    by blast
  with s(4) have "v s2 0xf = 1"
    by simp
  moreover from s(3) have "\<forall>p. lit (display s2 p) = lit (display init p)"
    by simp
  ultimately show ?thesis
    using a s(1,2) l by blast
qed

subsection \<open>Coordinates at and past the edge\<close>

text \<open>
  Where \<^verbatim>\<open>setPixel\<close> does wrap: a coordinate that is inside the display or at
  most one display past it, and not exactly on the bound, reaches the pixel that
  the modulo gives.
\<close>

lemma wrap_once:
  fixes x :: int
  assumes "0 \<le> x" "x < 2 * n" "x \<noteq> n" "0 < n"
  shows "(if x > n then x - n else if x < 0 then x + n else x) = x mod n"
proof (cases "x > n")
  case True
  with assms have "0 \<le> x - n" "x - n < n" by simp_all
  then have "(x - n) mod n = x - n" by (rule mod_pos_pos_trivial)
  then have "x mod n = x - n" by simp
  with True show ?thesis by simp
next
  case False
  with assms have "0 \<le> x" "x < n" by simp_all
  then have "x mod n = x" by (rule mod_pos_pos_trivial)
  with False assms show ?thesis by simp
qed

lemma pixel_index_wraps_once:
  assumes "0 \<le> x" "x < 128" "x \<noteq> 64" "0 \<le> y" "y < 64" "y \<noteq> 32"
  shows "pixel_index x y = x mod 64 + (y mod 32) * 64"
proof -
  have a: "(if x > 64 then x - 64 else if x < 0 then x + 64 else x) = x mod 64"
    by (rule wrap_once) (use assms in simp_all)
  have b: "(if y > 32 then y - 32 else if y < 0 then y + 32 else y) = y mod 32"
    by (rule wrap_once) (use assms in simp_all)
  show ?thesis
    unfolding pixel_index_def cols_def rows_def a b ..
qed

text \<open>
  Claim C3: for every Dxyn, every \<open>(Vx, Vy)\<close> and every offset inside the sprite,
  a coordinate that exceeds the display bounds (64 wide, 32 high) is wrapped
  modulo the width or height before the pixel is toggled, never clipped and never
  mapped to another row or column than \<open>(x mod 64, y mod 32)\<close>.

  \<^verbatim>\<open>setPixel\<close> wraps with \<^verbatim>\<open>if (x > this.cols) x -= this.cols\<close>: the comparison
  lets \<open>x = 64\<close> through and the single subtraction leaves \<open>x \<ge> 128\<close> out of
  range, and likewise for rows.  The pixel toggled is \<^verbatim>\<open>display[x + y * cols]\<close>,
  and \<^verbatim>\<open>render\<close> shows index \<open>p < 2048\<close> at column \<open>p mod 64\<close>, row \<open>p div 64\<close>:
  \<^item> \<open>(64, 0)\<close> toggles index 64, column 0 of row 1, not \<open>(0, 0)\<close>;
  \<^item> \<open>(0, 32)\<close> toggles index 2048, which \<^verbatim>\<open>render\<close> never draws;
  \<^item> \<open>(130, 0)\<close> toggles index 66, column 2 of row 1, not \<open>(2, 0)\<close>;
  \<^item> opcode D011 with \<open>V0 = 64\<close>, \<open>V1 = 0\<close> and the sprite byte 0x80 lights
    index 64 on a blank display and leaves index 0 dark.
\<close>

theorem C3_edge_coordinates_not_wrapped:
  "fst (setPixel d 64 0) = d(64 := Some (xor1 (d 64)))
   \<and> fst (setPixel d 0 32) = d(2048 := Some (xor1 (d 2048)))
   \<and> fst (setPixel d 130 0) = d(66 := Some (xor1 (d 66)))
   \<and> display (projr (executeInstruction
         (init\<lparr>v := (v init)(0 := 64), i := 0x300, memory := (memory init)(0x300 := 0x80)\<rparr>)
         rnd 0xd011)) = (display init)(64 := Some 1)"
proof -
  let ?s = "init\<lparr>v := (v init)(0 := 64), i := 0x300, memory := (memory init)(0x300 := 0x80)\<rparr>"
  have "executeInstruction ?s rnd 0xd011 =
      Inr (toggle 64 (?s\<lparr>pc := js_add (pc ?s) 2, v := (v ?s)(0xf := 0)\<rparr>))"
    using draw_example [of ?s rnd]
    by (simp add: pixel_index_def cols_def rows_def init_def)
  then have "display (projr (executeInstruction ?s rnd 0xd011)) = (display init)(64 := Some 1)"
    by (simp add: toggle_def init_def)
  then show ?thesis
    by (simp add: setPixel_def cols_def rows_def)
qed

section \<open>Widths\<close>

lemma adder_loaded:
  "loadProgramIntoMemory init adder_rom =
     init\<lparr>memory := (memory init)(0x200 := 0x60, 0x201 := 0xff, 0x202 := 0xaf, 0x203 := 0xff,
        0x204 := 0xf0, 0x205 := 0x1e, 0x206 := 0x12, 0x207 := 0x04)\<rparr>"
  by (simp add: loadProgramIntoMemory_def adder_rom_def loadProgram_loop.simps mem_write_def)

lemma adder_first_cycle:
  "cycle (loadProgramIntoMemory init adder_rom) rnd = Inr (adder_state 5115)"
  by (simp only: adder_state_def adder_loaded)
    (simp add: cycle_def cycle_loop.simps fetch_def executeInstruction_def exec_F_def
      init_def mem_read_def updateTimers_def)

lemma adder_next_cycle:
  "cycle (adder_state n) rnd = Inr (adder_state (n + 1275))"
  by (simp only: adder_state_def adder_loaded)
    (simp add: cycle_def cycle_loop.simps fetch_def executeInstruction_def exec_F_def
      init_def mem_read_def updateTimers_def)

lemma adder_cycles:
  "cycles k (adder_state n) = Inr (adder_state (n + 1275 * k))"
  by (induction k arbitrary: n) (simp_all add: adder_next_cycle algebra_simps)

text \<open>
  Registers and memory cells are elements of a \<^verbatim>\<open>Uint8Array\<close>: whatever is
  stored, they hold a value in 0..255.
\<close>

lemma registers_and_memory_are_bytes:
  "unat (v s r) < 256 \<and> unat (memory s a) < 256"
  using unsigned_less [of "v s r", where ?'a = nat] unsigned_less [of "memory s a", where ?'a = nat]
  by simp

lemma Fx1E_adds_without_truncation:
  assumes "opcode AND 0xf000 = 0xf000" and "opcode AND 0xff = 0x1e"
    and "x = drop_bit 8 (opcode AND 0x0f00)"
  shows "\<exists>s'. executeInstruction s rnd opcode = Inr s' \<and> i s' = i s + unat (v s x)"
  using assms by (simp add: executeInstruction_def exec_F_def)

text \<open>
  Claim C5: after any instruction from any reachable state, every register and
  memory cell holds a value in 0..255 and the address register \<open>I\<close> holds a value
  that fits 16 bits; a write that overflows is truncated, in particular Fx1E keeps
  \<open>I\<close> within this width.

  Registers and memory cells are bytes (\<open>registers_and_memory_are_bytes\<close>).  But
  \<^verbatim>\<open>this.i\<close> is a plain number and Fx1E is \<^verbatim>\<open>this.i += this.v[x]\<close>: nothing
  truncates it.  The eight-byte program \<^verbatim>\<open>60FF AFFF F01E 1204\<close>, loaded at 0x200
  and run for 49 calls of \<^verbatim>\<open>cycle\<close>, reaches \<open>I = 66315\<close>, above \<open>0xFFFF\<close>; the
  instruction executed last but one was Fx1E.
\<close>

theorem C5_address_register_exceeds_16_bits:
  "cycles 49 (loadProgramIntoMemory init adder_rom) = Inr (adder_state 66315)
   \<and> i (adder_state 66315) = 66315
   \<and> \<not> i (adder_state 66315) < 2 ^ 16
   \<and> executeInstruction (adder_state 66060) rnd 0xf01e
       = Inr ((adder_state 66315)\<lparr>pc := Num 0x206\<rparr>)"
proof -
  have "(49::nat) = Suc 48" by simp
  then have "cycles 49 (loadProgramIntoMemory init adder_rom) = cycles 48 (adder_state 5115)"
    by (simp only: cycles.simps adder_first_cycle sum.case)
  also have "\<dots> = Inr (adder_state 66315)"
    by (simp add: adder_cycles)
  finally have "cycles 49 (loadProgramIntoMemory init adder_rom) = Inr (adder_state 66315)" .
  moreover have "i (adder_state 66315) = 66315"
    by (simp add: adder_state_def)
  moreover have "executeInstruction (adder_state 66060) rnd 0xf01e
       = Inr ((adder_state 66315)\<lparr>pc := Num 0x206\<rparr>)"
    by (simp only: adder_state_def adder_loaded)
      (simp add: executeInstruction_def exec_F_def init_def)
  ultimately show ?thesis
    by simp
qed

end
